theory Spec2Isabelle
  imports Main "HOL-Library.AList" "HOL-Library.Char_ord" "HOL-Library.List_Lexorder"
    "HOL-Library.Multiset"
begin

section \<open>Platform properties\<close>

text \<open>
  The two generated message types \<open>cmdpb.Platform_Property\<close> and
  \<open>cmdpb.RemoteexecPlatform_Property\<close> both carry a name and a value.
\<close>

record Platform_Property =
  pp_Name :: string
  pp_Value :: string

record RemoteexecPlatform_Property =
  rp_Name :: string
  rp_Value :: string

record Platform =
  pl_Properties :: "Platform_Property list"

record RemoteexecPlatform =
  rbe_Properties :: "RemoteexecPlatform_Property list"
  rbe_HasNsjail :: bool

text \<open>
  \<open>mergePlatformProperties\<close>: the name table \<open>m\<close> is filled from the target's
  properties before the second loop and is not touched by it; a missing key reads as
  \<open>false\<close>. The second loop appends to the target.
\<close>

definition merge_names :: "RemoteexecPlatform_Property list \<Rightarrow> string \<Rightarrow> bool" where
  "merge_names ps = fold (\<lambda>p m. m(rp_Name p := True)) ps (\<lambda>_. False)"

fun merge_append ::
  "(string \<Rightarrow> bool) \<Rightarrow> RemoteexecPlatform_Property list \<Rightarrow> Platform_Property list
    \<Rightarrow> RemoteexecPlatform_Property list" where
  "merge_append m acc [] = acc"
| "merge_append m acc (p # ps) =
     (if m (pp_Name p) then merge_append m acc ps
      else merge_append m (acc @ [\<lparr>rp_Name = pp_Name p, rp_Value = pp_Value p\<rparr>]) ps)"

definition mergePlatformProperties ::
  "RemoteexecPlatform \<Rightarrow> Platform option \<Rightarrow> RemoteexecPlatform" where
  "mergePlatformProperties rbePlatform platform =
     (case platform of
        None \<Rightarrow> rbePlatform
      | Some pl \<Rightarrow>
          rbePlatform\<lparr>rbe_Properties :=
            merge_append (merge_names (rbe_Properties rbePlatform))
              (rbe_Properties rbePlatform) (pl_Properties pl)\<rparr>)"

section \<open>Go library functions used by the loader\<close>

text \<open>
  The loader calls a few functions of Go's \<open>strings\<close> and \<open>path\<close> packages. They are
  written here after the library's own code, on byte strings.
\<close>

definition HasPrefix :: "string \<Rightarrow> string \<Rightarrow> bool" where
  "HasPrefix s prefix = (length prefix \<le> length s \<and> take (length prefix) s = prefix)"

text \<open>\<open>strings.Index\<close>: the index of the first occurrence, \<open>None\<close> for Go's \<open>-1\<close>.\<close>

fun Index :: "string \<Rightarrow> string \<Rightarrow> nat option" where
  "Index [] substr = (if substr = [] then Some 0 else None)"
| "Index (c # cs) substr =
     (if HasPrefix (c # cs) substr then Some 0 else map_option Suc (Index cs substr))"

fun LastIndexByte :: "string \<Rightarrow> char \<Rightarrow> nat option" where
  "LastIndexByte [] c = None"
| "LastIndexByte (x # xs) c =
     (case LastIndexByte xs c of
        Some i \<Rightarrow> Some (Suc i)
      | None \<Rightarrow> if x = c then Some 0 else None)"

text \<open>\<open>strings.SplitN(s, sep, 2)\<close> for a non-empty separator.\<close>

definition SplitN2 :: "string \<Rightarrow> string \<Rightarrow> string list" where
  "SplitN2 s sep =
     (case Index s sep of
        None \<Rightarrow> [s]
      | Some i \<Rightarrow> [take i s, drop (i + length sep) s])"

text \<open>
  \<open>path.Clean\<close>. The library keeps a read index into the path and a write buffer; here
  the unread rest of the path and the buffer's contents are the loop's state, and
  \<open>dotdot\<close> is the length of the buffer's prefix that a \<open>..\<close> element must not remove.
\<close>

fun backtrack :: "string \<Rightarrow> nat \<Rightarrow> nat \<Rightarrow> nat" where
  "backtrack out dotdot w =
     (if w > dotdot \<and> out ! w \<noteq> CHR ''/'' then backtrack out dotdot (w - 1) else w)"

declare backtrack.simps [simp del]

function Clean_loop :: "bool \<Rightarrow> string \<Rightarrow> string \<Rightarrow> nat \<Rightarrow> string" where
  "Clean_loop rooted [] out dotdot = out"
| "Clean_loop rooted (c # cs) out dotdot =
     (if c = CHR ''/'' then Clean_loop rooted cs out dotdot
      else if c = CHR ''.'' \<and> (case cs of [] \<Rightarrow> True | d # _ \<Rightarrow> d = CHR ''/'')
        then Clean_loop rooted cs out dotdot
      else if c = CHR ''.'' \<and>
              (case cs of
                 [] \<Rightarrow> False
               | d # ds \<Rightarrow> d = CHR ''.'' \<and> (case ds of [] \<Rightarrow> True | e # _ \<Rightarrow> e = CHR ''/''))
        then
          (if length out > dotdot
             then Clean_loop rooted (tl cs)
                    (take (backtrack out dotdot (length out - 1)) out) dotdot
           else if \<not> rooted
             then Clean_loop rooted (tl cs)
                    ((if out \<noteq> [] then out @ ''/'' else out) @ ''..'')
                    (length ((if out \<noteq> [] then out @ ''/'' else out) @ ''..''))
           else Clean_loop rooted (tl cs) out dotdot)
      else
        Clean_loop rooted (dropWhile (\<lambda>x. x \<noteq> CHR ''/'') cs)
          ((if (rooted \<and> length out \<noteq> 1) \<or> (\<not> rooted \<and> length out \<noteq> 0)
              then out @ ''/'' else out)
             @ c # takeWhile (\<lambda>x. x \<noteq> CHR ''/'') cs)
          dotdot)"
  by pat_completeness auto
termination
proof (relation "measure (\<lambda>(rooted, p, out, dotdot). length p)")
  show "wf (measure (\<lambda>(rooted, p, out, dotdot). length p))" by simp
qed (auto simp: less_Suc_eq_le length_dropWhile_le intro: le_trans [OF _ le_SucI])

definition Clean :: "string \<Rightarrow> string" where
  "Clean p =
     (if p = [] then ''.''
      else let rooted = (hd p = CHR ''/'');
               out = (if rooted then Clean_loop True (tl p) ''/'' 1
                      else Clean_loop False p [] 0)
           in if out = [] then ''.'' else out)"

text \<open>\<open>path.Base\<close>, \<open>path.Split\<close>, \<open>path.Dir\<close> and \<open>path.Join\<close>.\<close>

definition Base :: "string \<Rightarrow> string" where
  "Base p =
     (if p = [] then ''.''
      else let q = rev (dropWhile (\<lambda>x. x = CHR ''/'') (rev p));
               e = (case LastIndexByte q (CHR ''/'') of
                      Some i \<Rightarrow> drop (i + 1) q
                    | None \<Rightarrow> q)
           in if e = [] then ''/'' else e)"

definition Split :: "string \<Rightarrow> string \<times> string" where
  "Split p =
     (case LastIndexByte p (CHR ''/'') of
        None \<Rightarrow> ([], p)
      | Some i \<Rightarrow> (take (i + 1) p, drop (i + 1) p))"

definition Dir :: "string \<Rightarrow> string" where
  "Dir p = Clean (fst (Split p))"

fun Join_buf :: "string \<Rightarrow> string list \<Rightarrow> string" where
  "Join_buf buf [] = buf"
| "Join_buf buf (e # es) =
     (if buf \<noteq> [] \<or> e \<noteq> []
        then Join_buf ((if buf \<noteq> [] then buf @ ''/'' else buf) @ e) es
      else Join_buf buf es)"

definition Join :: "string list \<Rightarrow> string" where
  "Join elem = (if sum_list (map length elem) = 0 then [] else Clean (Join_buf [] elem))"

section \<open>Messages of the command protocol\<close>

text \<open>
  The generated package \<open>cmdpb\<close> is not among the sources. The messages below have the
  fields the loader reads and writes; a pointer that may be nil is an \<open>option\<close>. Of the
  path types only \<open>UNKNOWN_PATH_TYPE\<close> is named by the loader.
\<close>

record Selector =
  sel_Name :: string
  sel_Version :: string
  sel_Target :: string
  sel_BinaryHash :: string

datatype PathType = UNKNOWN_PATH_TYPE | POSIX | WINDOWS

record Setup =
  setup_PathType :: PathType

record CmdDescriptor =
  cd_Selector :: "Selector option"
  cd_Setup :: "Setup option"

typedecl ACL

record PlatformRuntimeConfig =
  prc_Dimensions :: "string list"
  prc_HasNsjail :: bool

record RuntimeConfig =
  rc_Name :: string
  rc_ServiceAddr :: string
  rc_Platform :: "Platform option"
  rc_PlatformRuntimeConfig :: "PlatformRuntimeConfig option"
  rc_AllowedPrebuilts :: "string list"
  rc_DisallowedPrebuilts :: "string list"
  rc_DisallowedCommands :: "Selector list"
  rc_Acl :: "ACL option"

record Target =
  tgt_Addr :: string

record BuildInfo =
  bi_Timestamp :: int

record Config =
  cfg_Target :: "Target option"
  cfg_BuildInfo :: "BuildInfo option"
  cfg_CmdDescriptor :: "CmdDescriptor option"
  cfg_RemoteexecPlatform :: "RemoteexecPlatform option"
  cfg_Dimensions :: "string list"
  cfg_Acl :: "ACL option"

record ConfigResp =
  resp_VersionId :: string
  resp_Configs :: "Config list"

record ConfigMap_proto =
  cmp_Runtimes :: "RuntimeConfig list"

section \<open>Errors\<close>

text \<open>
  One constructor for each error the loader makes or compares with, and \<open>ErrExternal\<close>
  for any other error value handed over by the storage client, the file system or the
  protobuf decoder.
\<close>

datatype error =
    ErrNoUpdate
  | ErrObjectNotExist
  | ErrExternal string
  | ErrNotGsURI string
  | ErrCouldNotFindBucket string
  | ErrCouldNotFindObject string string
  | ErrCouldNotFindStorageBucket string
  | ErrLoad string error
  | ErrParse string error
  | ErrRuntimeConfigNotFound string
  | ErrNoPrebuiltDir string
  | ErrDisallowedPrebuilt string string
  | ErrNotAllowedPrebuilt string
  | ErrNoSelector
  | ErrDisallowedByName Selector string
  | ErrDisallowedByVersion Selector string
  | ErrDisallowedByTarget Selector string
  | ErrDisallowedByBinaryHash Selector string

section \<open>Cloud storage as the loader sees it\<close>

text \<open>
  A client maps a bucket name to a bucket handle (or nil). A handle lists the objects
  under a prefix as the successive results of the iterator's \<open>Next\<close> (the end of the list
  is \<open>iterator.Done\<close>) and maps an object name to an object handle (or nil). An object
  handle is the result of \<open>NewReader\<close>: an error, or a reader, which in turn is the result
  of reading it to the end: an error, or the bytes.
\<close>

record ObjectAttrs =
  attrs_Name :: string
  attrs_Updated :: int

type_synonym Reader = "error + string"

type_synonym ObjectHandle = "error + Reader"

record BucketHandle =
  bkt_Objects :: "string \<Rightarrow> (error + ObjectAttrs) list"
  bkt_Object :: "string \<Rightarrow> ObjectHandle option"

type_synonym Client = "string \<Rightarrow> BucketHandle option"

text \<open>
  What the loader takes from outside the repository and from the Go runtime: the protobuf
  decoder, the reading and parsing of the config map file, the version identifier the
  clock gives, the number of CPUs (at least one), and the choices the runtime makes: which
  of the running workers of a fetch finishes next (a list of choices for each URI) and in
  which order a \<open>range\<close> visits the keys of a map.
\<close>

record World =
  w_Unmarshal :: "string \<Rightarrow> error + CmdDescriptor"
  w_ReadConfigMapFile :: "string \<Rightarrow> error + ConfigMap_proto"
  w_versionID :: string
  w_NumCPU :: nat
  w_finish :: "string \<Rightarrow> nat list"
  w_range :: "nat list"

section \<open>Reading objects\<close>

definition splitGCSPath :: "string \<Rightarrow> error + string \<times> string" where
  "splitGCSPath uri =
     (if \<not> HasPrefix uri ''gs://'' then Inl (ErrNotGsURI uri)
      else let p = SplitN2 (drop (length ''gs://'') uri) ''/''
           in if length p \<noteq> 2 then Inr (p ! 0, []) else Inr (p ! 0, p ! 1))"

definition storageReadAll :: "Client \<Rightarrow> string \<Rightarrow> string \<Rightarrow> error + string" where
  "storageReadAll client bucket name =
     (case client bucket of
        None \<Rightarrow> Inl (ErrCouldNotFindBucket bucket)
      | Some bkt \<Rightarrow>
          (case bkt_Object bkt name of
             None \<Rightarrow> Inl (ErrCouldNotFindObject bucket name)
           | Some obj \<Rightarrow>
               (case obj of
                  Inl err \<Rightarrow> Inl err
                | Inr rd \<Rightarrow> (case rd of Inl err \<Rightarrow> Inl err | Inr buf \<Rightarrow> Inr buf))))"

definition loadDescriptor :: "World \<Rightarrow> Client \<Rightarrow> string \<Rightarrow> string \<Rightarrow> error + CmdDescriptor" where
  "loadDescriptor w client bucket name =
     (case storageReadAll client bucket name of
        Inl err \<Rightarrow> Inl (ErrLoad name err)
      | Inr buf \<Rightarrow>
          (case w_Unmarshal w buf of
             Inl err \<Rightarrow> Inl (ErrParse name err)
           | Inr d \<Rightarrow> Inr d))"

section \<open>Filters\<close>

text \<open>Both checks return the error they would log, \<open>None\<close> for nil.\<close>

fun first_prefix :: "string \<Rightarrow> string list \<Rightarrow> string option" where
  "first_prefix s [] = None"
| "first_prefix s (prefix # ps) = (if HasPrefix s prefix then Some prefix else first_prefix s ps)"

definition checkPrebuilt :: "RuntimeConfig \<Rightarrow> string \<Rightarrow> error option" where
  "checkPrebuilt rc objName =
     (case Index objName ''/descriptors'' of
        None \<Rightarrow> Some (ErrNoPrebuiltDir objName)
      | Some i \<Rightarrow>
          (let prebuiltName = Base (take i objName) in
           case first_prefix prebuiltName (rc_DisallowedPrebuilts rc) of
             Some prefix \<Rightarrow> Some (ErrDisallowedPrebuilt objName prefix)
           | None \<Rightarrow>
               if length (rc_AllowedPrebuilts rc) = 0 then None
               else if first_prefix prebuiltName (rc_AllowedPrebuilts rc) = None
                 then Some (ErrNotAllowedPrebuilt objName)
               else None))"

fun checkSelector_loop :: "Selector list \<Rightarrow> Selector \<Rightarrow> error option" where
  "checkSelector_loop [] sel = None"
| "checkSelector_loop (s # ss) sel =
     (if sel_Name s \<noteq> [] \<and> sel_Name s = sel_Name sel
        then Some (ErrDisallowedByName sel (sel_Name s))
      else if sel_Version s \<noteq> [] \<and> sel_Version s = sel_Version sel
        then Some (ErrDisallowedByVersion sel (sel_Version s))
      else if sel_Target s \<noteq> [] \<and> sel_Target s = sel_Target sel
        then Some (ErrDisallowedByTarget sel (sel_Target s))
      else if sel_BinaryHash s \<noteq> [] \<and> sel_BinaryHash s = sel_BinaryHash sel
        then Some (ErrDisallowedByBinaryHash sel (sel_BinaryHash s))
      else checkSelector_loop ss sel)"

definition checkSelector :: "RuntimeConfig \<Rightarrow> Selector option \<Rightarrow> error option" where
  "checkSelector rc sel =
     (case sel of
        None \<Rightarrow> Some ErrNoSelector
      | Some sl \<Rightarrow> checkSelector_loop (rc_DisallowedCommands rc) sl)"

section \<open>Choices of the runtime\<close>

text \<open>
  \<open>pick_order k choices xs\<close> lists \<open>xs\<close> in an order the runtime may produce when at most
  \<open>k\<close> of the pending elements, the first ones, are eligible to come next: each choice
  selects one of them. With \<open>k = 1\<close> only the first is eligible and the order is that
  of \<open>xs\<close>; a bound of \<open>0\<close> is read as \<open>1\<close>. It serves for the order in which the
  workers of a fetch finish (they are started in index order, at most \<open>k\<close> at a time,
  and a worker's writes are taken to happen when it finishes) and, with every pending key
  eligible, for the order of a \<open>range\<close> over a map.
\<close>

definition next_choice :: "nat list \<Rightarrow> nat" where
  "next_choice choices = (case choices of [] \<Rightarrow> 0 | c # _ \<Rightarrow> c)"

function pick_order :: "nat \<Rightarrow> nat list \<Rightarrow> 'a list \<Rightarrow> 'a list" where
  "pick_order k choices [] = []"
| "pick_order k choices (x # xs) =
     (let eligible = take (max 1 k) (x # xs);
          j = next_choice choices mod length eligible
      in (x # xs) ! j # pick_order k (tl choices) (take j (x # xs) @ drop (Suc j) (x # xs)))"
  by pat_completeness auto
termination
proof (relation "measure (\<lambda>(k, choices, xs). length xs)", goal_cases)
  case 1
  show ?case by simp
next
  case (2 k choices x xs eligible j)
  have "0 < length eligible" "length eligible \<le> length (x # xs)"
    using 2(1) by (auto simp: min_def max_def)
  then have "j < length (x # xs)"
    using 2(2) by (auto intro: less_le_trans [OF mod_less_divisor])
  then show ?case by (simp add: min_def)
qed

definition range_order :: "nat list \<Rightarrow> 'a list \<Rightarrow> 'a list" where
  "range_order choices xs = pick_order (length xs) choices xs"

section \<open>Loading the descriptors of one runtime\<close>

text \<open>The listing loop of \<open>loadConfigs\<close>: \<open>attrsList\<close> collects the objects that pass.\<close>

fun list_objects ::
  "RuntimeConfig \<Rightarrow> (error + ObjectAttrs) list \<Rightarrow> ObjectAttrs list \<Rightarrow> error + ObjectAttrs list" where
  "list_objects rc [] attrsList = Inr attrsList"
| "list_objects rc (Inl err # iter) attrsList = Inl err"
| "list_objects rc (Inr attrs # iter) attrsList =
     (if checkPrebuilt rc (attrs_Name attrs) \<noteq> None then list_objects rc iter attrsList
      else if Base (Dir (attrs_Name attrs)) \<noteq> ''descriptors'' then list_objects rc iter attrsList
      else list_objects rc iter (attrsList @ [attrs]))"

text \<open>
  The body of one worker: an error fails the group, \<open>Inr None\<close> leaves the worker's slot
  nil, \<open>Inr (Some conf)\<close> is written to it.
\<close>

definition worker_Config ::
  "RuntimeConfig \<Rightarrow> RemoteexecPlatform \<Rightarrow> ObjectAttrs \<Rightarrow> CmdDescriptor \<Rightarrow> Config" where
  "worker_Config rc platform attrs d =
     \<lparr>cfg_Target = Some \<lparr>tgt_Addr = rc_ServiceAddr rc\<rparr>,
      cfg_BuildInfo = Some \<lparr>bi_Timestamp = attrs_Updated attrs\<rparr>,
      cfg_CmdDescriptor = Some d,
      cfg_RemoteexecPlatform = Some platform,
      cfg_Dimensions = [],
      cfg_Acl = rc_Acl rc\<rparr>"

definition worker ::
  "World \<Rightarrow> Client \<Rightarrow> string \<Rightarrow> RuntimeConfig \<Rightarrow> RemoteexecPlatform \<Rightarrow> ObjectAttrs
    \<Rightarrow> error + Config option" where
  "worker w client bucket rc platform attrs =
     (case loadDescriptor w client bucket (attrs_Name attrs) of
        Inl err \<Rightarrow> Inl err
      | Inr d \<Rightarrow>
          if checkSelector rc (cd_Selector d) \<noteq> None then Inr None
          else (case cd_Setup d of
                  None \<Rightarrow> Inr None
                | Some setup \<Rightarrow>
                    if setup_PathType setup = UNKNOWN_PATH_TYPE then Inr None
                    else Inr (Some (worker_Config rc platform attrs d))))"

text \<open>
  The error group while its workers finish one after the other: the slots, and the first
  error returned (later ones are dropped). Worker \<open>i\<close> touches slot \<open>i\<close> only.
\<close>

definition finish ::
  "(nat \<Rightarrow> error + Config option) \<Rightarrow> nat \<Rightarrow> Config option list \<times> error option
    \<Rightarrow> Config option list \<times> error option" where
  "finish body i st =
     (case body i of
        Inl err \<Rightarrow> (fst st, (case snd st of None \<Rightarrow> Some err | Some first \<Rightarrow> Some first))
      | Inr None \<Rightarrow> st
      | Inr (Some conf) \<Rightarrow> ((fst st)[i := Some conf], snd st))"

fun compact :: "'a option list \<Rightarrow> 'a list" where
  "compact [] = []"
| "compact (None # xs) = compact xs"
| "compact (Some x # xs) = x # compact xs"

definition run_workers ::
  "nat \<Rightarrow> nat list \<Rightarrow> (nat \<Rightarrow> error + Config option) \<Rightarrow> nat \<Rightarrow> error + Config list" where
  "run_workers concurrent choices body n =
     (case fold (finish body) (pick_order concurrent choices [0..<n]) (replicate n None, None) of
        (confList, Some err) \<Rightarrow> Inl err
      | (confList, None) \<Rightarrow> Inr (compact confList))"

definition loadConfigs ::
  "World \<Rightarrow> Client \<Rightarrow> string \<Rightarrow> RuntimeConfig \<Rightarrow> RemoteexecPlatform \<Rightarrow> bool
    \<Rightarrow> error + Config list" where
  "loadConfigs w client uri rc platform parallel =
     (case splitGCSPath uri of
        Inl err \<Rightarrow> Inl err
      | Inr (bucket, obj) \<Rightarrow>
          (case client bucket of
             None \<Rightarrow> Inl (ErrCouldNotFindStorageBucket bucket)
           | Some bkt \<Rightarrow>
               (case list_objects rc (bkt_Objects bkt obj) [] of
                  Inl err \<Rightarrow> Inl err
                | Inr attrsList \<Rightarrow>
                    run_workers (if parallel then max 1 (w_NumCPU w) * 4 else 1) (w_finish w uri)
                      (\<lambda>i. worker w client bucket rc platform (attrsList ! i))
                      (length attrsList))))"

record ConfigLoader =
  cl_StorageClient :: Client
  cl_EnableParallel :: bool

definition ConfigLoader_Load ::
  "World \<Rightarrow> ConfigLoader \<Rightarrow> string \<Rightarrow> RuntimeConfig \<Rightarrow> error + Config list" where
  "ConfigLoader_Load w c uri rc =
     (let platform =
            \<lparr>rbe_Properties =
               map (\<lambda>p. \<lparr>rp_Name = pp_Name p, rp_Value = pp_Value p\<rparr>)
                 (case rc_Platform rc of None \<Rightarrow> [] | Some pl \<Rightarrow> pl_Properties pl),
             rbe_HasNsjail =
               (case rc_PlatformRuntimeConfig rc of None \<Rightarrow> False | Some prc \<Rightarrow> prc_HasNsjail prc)\<rparr>
      in case loadConfigs w (cl_StorageClient c) uri rc platform (cl_EnableParallel c) of
           Inl err \<Rightarrow> Inl err
         | Inr confs \<Rightarrow>
             (case rc_PlatformRuntimeConfig rc of
                None \<Rightarrow> Inr confs
              | Some prc \<Rightarrow>
                  Inr (confs @ [\<lparr>cfg_Target = None, cfg_BuildInfo = None,
                                  cfg_CmdDescriptor = None,
                                  cfg_RemoteexecPlatform = Some platform,
                                  cfg_Dimensions = prc_Dimensions prc,
                                  cfg_Acl = rc_Acl rc\<rparr>])))"

section \<open>The config store\<close>

text \<open>
  \<open>lastConfigs\<close> is a Go map from runtime name to the sequence token and the configs
  loaded last. It is kept as an association list read through \<open>map_of\<close>; \<open>Set\<close> and
  \<open>Delete\<close> are the list's update and delete. A missing key reads as the zero value, so
  \<open>Seq\<close> of an unknown name is the empty string.
\<close>

record configs =
  c_seq :: string
  c_configs :: "Config list"

type_synonym ConfigStore = "(string \<times> configs) list"

definition ConfigStore_List :: "ConfigStore \<Rightarrow> string list" where
  "ConfigStore_List c = sort (remdups (map fst c))"

definition ConfigStore_Set :: "string \<Rightarrow> string \<Rightarrow> Config list \<Rightarrow> ConfigStore \<Rightarrow> ConfigStore" where
  "ConfigStore_Set name seq confs c = AList.update name \<lparr>c_seq = seq, c_configs = confs\<rparr> c"

definition ConfigStore_Seq :: "ConfigStore \<Rightarrow> string \<Rightarrow> string" where
  "ConfigStore_Seq c name = (case map_of c name of None \<Rightarrow> [] | Some v \<Rightarrow> c_seq v)"

definition ConfigStore_Delete :: "string \<Rightarrow> ConfigStore \<Rightarrow> ConfigStore" where
  "ConfigStore_Delete name c = AList.delete name c"

definition ConfigStore_ConfigResp :: "World \<Rightarrow> ConfigStore \<Rightarrow> ConfigResp" where
  "ConfigStore_ConfigResp w c =
     \<lparr>resp_VersionId = w_versionID w,
      resp_Configs =
        concat (map (\<lambda>name. case map_of c name of None \<Rightarrow> [] | Some v \<Rightarrow> c_configs v)
                  (ConfigStore_List c))\<rparr>"

section \<open>The config map on a storage bucket\<close>

record ConfigMapBucket =
  cmb_URI :: string
  cmb_ConfigMap :: ConfigMap_proto
  cmb_ConfigMapFile :: string
  cmb_StorageClient :: Client
  cmb_RemoteexecAddr :: string

definition configMap :: "World \<Rightarrow> ConfigMapBucket \<Rightarrow> error + ConfigMap_proto" where
  "configMap w c =
     (if cmb_ConfigMapFile c = [] then Inr (cmb_ConfigMap c)
      else w_ReadConfigMapFile w (cmb_ConfigMapFile c))"

fun Seqs_loop ::
  "Client \<Rightarrow> string \<Rightarrow> RuntimeConfig list \<Rightarrow> (string \<times> string) list
    \<Rightarrow> error + (string \<times> string) list" where
  "Seqs_loop client bucket [] m = Inr m"
| "Seqs_loop client bucket (r # rs) m =
     (case storageReadAll client bucket (Join [rc_Name r, ''seq'']) of
        Inl err \<Rightarrow>
          if err = ErrObjectNotExist then Seqs_loop client bucket rs m else Inl err
      | Inr buf \<Rightarrow> Seqs_loop client bucket rs (AList.update (rc_Name r) buf m))"

definition ConfigMapBucket_Seqs :: "World \<Rightarrow> ConfigMapBucket \<Rightarrow> error + (string \<times> string) list" where
  "ConfigMapBucket_Seqs w c =
     (case splitGCSPath (cmb_URI c) of
        Inl err \<Rightarrow> Inl err
      | Inr (bucket, rest) \<Rightarrow>
          (case configMap w c of
             Inl err \<Rightarrow> Inl err
           | Inr cm \<Rightarrow> Seqs_loop (cmb_StorageClient c) bucket (cmp_Runtimes cm) []))"

definition ConfigMapBucket_Bucket :: "ConfigMapBucket \<Rightarrow> error + string" where
  "ConfigMapBucket_Bucket c =
     (case splitGCSPath (cmb_URI c) of
        Inl err \<Rightarrow> Inl err
      | Inr (bucket, rest) \<Rightarrow> Inr bucket)"

fun RuntimeConfigs_loop ::
  "string \<Rightarrow> RuntimeConfig list \<Rightarrow> (string \<times> RuntimeConfig) list
    \<Rightarrow> (string \<times> RuntimeConfig) list" where
  "RuntimeConfigs_loop addr [] m = m"
| "RuntimeConfigs_loop addr (rt # rts) m =
     (let rt' = (if rc_ServiceAddr rt = [] then rt\<lparr>rc_ServiceAddr := addr\<rparr> else rt)
      in RuntimeConfigs_loop addr rts (AList.update (rc_Name rt') rt' m))"

definition ConfigMapBucket_RuntimeConfigs ::
  "World \<Rightarrow> ConfigMapBucket \<Rightarrow> error + (string \<times> RuntimeConfig) list" where
  "ConfigMapBucket_RuntimeConfigs w c =
     (case configMap w c of
        Inl err \<Rightarrow> Inl err
      | Inr cm \<Rightarrow> Inr (RuntimeConfigs_loop (cmb_RemoteexecAddr c) (cmp_Runtimes cm) []))"

section \<open>The config map loader\<close>

text \<open>
  The interface \<open>ConfigMap\<close>, as the results its three methods give during one pass; a
  Go map is an association list read through \<open>map_of\<close>.
\<close>

record ConfigMap =
  cm_Seqs :: "error + (string \<times> string) list"
  cm_Bucket :: "error + string"
  cm_RuntimeConfigs :: "error + (string \<times> RuntimeConfig) list"

definition ConfigMapBucket_ConfigMap :: "World \<Rightarrow> ConfigMapBucket \<Rightarrow> ConfigMap" where
  "ConfigMapBucket_ConfigMap w c =
     \<lparr>cm_Seqs = ConfigMapBucket_Seqs w c,
      cm_Bucket = ConfigMapBucket_Bucket c,
      cm_RuntimeConfigs = ConfigMapBucket_RuntimeConfigs w c\<rparr>"

record ConfigMapLoader =
  cml_ConfigMap :: ConfigMap
  cml_ConfigLoader :: ConfigLoader
  cml_ConfigStore :: ConfigStore

text \<open>
  The first loop of \<open>Load\<close>, over the fetched tokens: \<open>deleted\<close> starts as the names of
  the store and loses every fetched name; \<open>updated\<close> gains the fetched names whose token
  is not the one \<open>Seq\<close> returns.
\<close>

fun Load_diff ::
  "ConfigStore \<Rightarrow> (string \<times> string) list \<Rightarrow> (string \<times> string) list \<times> string list
    \<Rightarrow> (string \<times> string) list \<times> string list" where
  "Load_diff store [] (updated, deleted) = (updated, deleted)"
| "Load_diff store ((name, seq) # seqs) (updated, deleted) =
     Load_diff store seqs
       (if ConfigStore_Seq store name \<noteq> seq then AList.update name seq updated else updated,
        removeAll name deleted)"

definition Load_updated :: "ConfigStore \<Rightarrow> (string \<times> string) list \<Rightarrow> (string \<times> string) list" where
  "Load_updated store seqs =
     fst (Load_diff store (AList.clearjunk seqs) ([], ConfigStore_List store))"

definition Load_deleted :: "ConfigStore \<Rightarrow> (string \<times> string) list \<Rightarrow> string list" where
  "Load_deleted store seqs =
     snd (Load_diff store (AList.clearjunk seqs) ([], ConfigStore_List store))"

text \<open>The last loop of \<open>Load\<close>, over \<open>updated\<close>; it returns the error, if any, and the store.\<close>

fun Load_reload ::
  "World \<Rightarrow> ConfigLoader \<Rightarrow> string \<Rightarrow> (string \<times> RuntimeConfig) list \<Rightarrow> (string \<times> string) list
    \<Rightarrow> ConfigStore \<Rightarrow> error option \<times> ConfigStore" where
  "Load_reload w cl bucket runtimeConfigs [] store = (None, store)"
| "Load_reload w cl bucket runtimeConfigs ((name, seq) # updated) store =
     (case map_of runtimeConfigs name of
        None \<Rightarrow> (Some (ErrRuntimeConfigNotFound name), store)
      | Some runtime \<Rightarrow>
          if rc_ServiceAddr runtime = [] then Load_reload w cl bucket runtimeConfigs updated store
          else (case ConfigLoader_Load w cl (''gs://'' @ bucket @ ''/'' @ name) runtime of
                  Inl err \<Rightarrow> (Some err, store)
                | Inr confs \<Rightarrow>
                    Load_reload w cl bucket runtimeConfigs updated
                      (ConfigStore_Set name seq confs store)))"

text \<open>\<open>Load\<close> returns its result and the store as the call leaves it.\<close>

definition Load :: "World \<Rightarrow> ConfigMapLoader \<Rightarrow> bool \<Rightarrow> (error + ConfigResp) \<times> ConfigStore" where
  "Load w c force =
     (let store = cml_ConfigStore c in
      case cm_Seqs (cml_ConfigMap c) of
        Inl err \<Rightarrow> (Inl err, store)
      | Inr seqs \<Rightarrow>
          let updated = Load_updated store seqs;
              deleted = Load_deleted store seqs
          in if length updated = 0 \<and> length deleted = 0 \<and> \<not> force
               then (Inl ErrNoUpdate, store)
             else
               let store1 = fold ConfigStore_Delete deleted store in
               case cm_Bucket (cml_ConfigMap c) of
                 Inl err \<Rightarrow> (Inl err, store1)
               | Inr bucket \<Rightarrow>
                   (case cm_RuntimeConfigs (cml_ConfigMap c) of
                      Inl err \<Rightarrow> (Inl err, store1)
                    | Inr runtimeConfigs \<Rightarrow>
                        (case Load_reload w (cml_ConfigLoader c) bucket runtimeConfigs
                                (range_order (w_range w) updated) store1 of
                           (Some err, store2) \<Rightarrow> (Inl err, store2)
                         | (None, store2) \<Rightarrow> (Inr (ConfigStore_ConfigResp w store2), store2))))"

section \<open>Notions used in the statements\<close>

text \<open>
  The first error among the workers, in the order they finish; what a worker leaves in
  its slot; and the list a call returns, which is nil when it returns an error.
\<close>

fun first_error :: "(nat \<Rightarrow> error + 'a) \<Rightarrow> nat list \<Rightarrow> error option" where
  "first_error body [] = None"
| "first_error body (i # is) =
     (case body i of Inl err \<Rightarrow> Some err | Inr _ \<Rightarrow> first_error body is)"

definition slot :: "error + Config option \<Rightarrow> Config option" where
  "slot r = (case r of Inl _ \<Rightarrow> None | Inr c \<Rightarrow> c)"

definition returned :: "error + 'a \<Rightarrow> 'a option" where
  "returned r = (case r of Inl _ \<Rightarrow> None | Inr x \<Rightarrow> Some x)"

text \<open>A parsed descriptor passes the checks a worker makes after loading it.\<close>

definition descriptor_ok :: "RuntimeConfig \<Rightarrow> CmdDescriptor \<Rightarrow> bool" where
  "descriptor_ok rc d =
     (checkSelector rc (cd_Selector d) = None \<and>
      (case cd_Setup d of None \<Rightarrow> False | Some setup \<Rightarrow> setup_PathType setup \<noteq> UNKNOWN_PATH_TYPE))"

text \<open>
  A runtime whose metadata has an empty service address is skipped by the reload loop;
  a runtime is loadable when it has metadata and is skipped or its configs load.
\<close>

definition skipped :: "(string \<times> RuntimeConfig) list \<Rightarrow> string \<Rightarrow> bool" where
  "skipped runtimeConfigs name =
     (case map_of runtimeConfigs name of None \<Rightarrow> False | Some runtime \<Rightarrow> rc_ServiceAddr runtime = [])"

definition loadable ::
  "World \<Rightarrow> ConfigLoader \<Rightarrow> string \<Rightarrow> (string \<times> RuntimeConfig) list \<Rightarrow> string \<Rightarrow> bool" where
  "loadable w cl bucket runtimeConfigs name =
     (case map_of runtimeConfigs name of
        None \<Rightarrow> False
      | Some runtime \<Rightarrow>
          rc_ServiceAddr runtime = [] \<or>
          \<not> isl (ConfigLoader_Load w cl (''gs://'' @ bucket @ ''/'' @ name) runtime))"

text \<open>What \<open>Seqs\<close> reads for a runtime name: the object \<open>seq\<close> under it.\<close>

definition read_seq :: "Client \<Rightarrow> string \<Rightarrow> string \<Rightarrow> error + string" where
  "read_seq client bucket name = storageReadAll client bucket (Join [name, ''seq''])"

section \<open>Example data\<close>

text \<open>
  A bucket \<open>cfg\<close> with a runtime \<open>rt\<close> of five descriptor objects (one valid, one
  without setup, one with a denied selector, one with the unknown path type, one valid)
  and a runtime \<open>bad\<close> whose second descriptor cannot be read.
\<close>

definition ex_rc :: RuntimeConfig where
  "ex_rc =
     \<lparr>rc_Name = ''rt'', rc_ServiceAddr = ''exec:443'', rc_Platform = None,
      rc_PlatformRuntimeConfig = None, rc_AllowedPrebuilts = [],
      rc_DisallowedPrebuilts = [],
      rc_DisallowedCommands =
        [\<lparr>sel_Name = ''clang'', sel_Version = [], sel_Target = [], sel_BinaryHash = []\<rparr>],
      rc_Acl = None\<rparr>"

definition ex_sel :: "string \<Rightarrow> Selector" where
  "ex_sel name =
     \<lparr>sel_Name = name, sel_Version = ''9'', sel_Target = ''x86_64-linux'', sel_BinaryHash = ''abc''\<rparr>"

definition ex_Unmarshal :: "string \<Rightarrow> error + CmdDescriptor" where
  "ex_Unmarshal buf =
     (if buf = ''gcc'' then
        Inr \<lparr>cd_Selector = Some (ex_sel ''gcc''), cd_Setup = Some \<lparr>setup_PathType = POSIX\<rparr>\<rparr>
      else if buf = ''clang'' then
        Inr \<lparr>cd_Selector = Some (ex_sel ''clang''), cd_Setup = Some \<lparr>setup_PathType = POSIX\<rparr>\<rparr>
      else if buf = ''nosetup'' then
        Inr \<lparr>cd_Selector = Some (ex_sel ''gcc''), cd_Setup = None\<rparr>
      else if buf = ''unknown'' then
        Inr \<lparr>cd_Selector = Some (ex_sel ''gcc''),
             cd_Setup = Some \<lparr>setup_PathType = UNKNOWN_PATH_TYPE\<rparr>\<rparr>
      else Inl (ErrExternal ''proto: cannot parse''))"

definition ex_world :: World where
  "ex_world =
     \<lparr>w_Unmarshal = ex_Unmarshal,
      w_ReadConfigMapFile = (\<lambda>_. Inl (ErrExternal ''no such file'')),
      w_versionID = ''v1'',
      w_NumCPU = 2,
      w_finish = (\<lambda>_. [1, 0, 2]),
      w_range = [1]\<rparr>"

definition ex_attrs :: "ObjectAttrs list" where
  "ex_attrs =
     [\<lparr>attrs_Name = ''rt/p/descriptors/h1'', attrs_Updated = 1\<rparr>,
      \<lparr>attrs_Name = ''rt/p/descriptors/h2'', attrs_Updated = 2\<rparr>,
      \<lparr>attrs_Name = ''rt/p/descriptors/h3'', attrs_Updated = 3\<rparr>,
      \<lparr>attrs_Name = ''rt/p/descriptors/h4'', attrs_Updated = 4\<rparr>,
      \<lparr>attrs_Name = ''rt/q/descriptors/h5'', attrs_Updated = 5\<rparr>]"

definition ex_bucket :: BucketHandle where
  "ex_bucket =
     \<lparr>bkt_Objects =
        (\<lambda>prefix. if prefix = ''rt'' then
                     Inr \<lparr>attrs_Name = ''rt/seq'', attrs_Updated = 9\<rparr> # map Inr ex_attrs
                   else if prefix = ''bad'' then
                     [Inr \<lparr>attrs_Name = ''bad/p/descriptors/h1'', attrs_Updated = 1\<rparr>,
                      Inr \<lparr>attrs_Name = ''bad/p/descriptors/h2'', attrs_Updated = 2\<rparr>]
                   else []),
      bkt_Object =
        (\<lambda>name. if name = ''rt/p/descriptors/h1'' then Some (Inr (Inr ''gcc''))
                 else if name = ''rt/p/descriptors/h2'' then Some (Inr (Inr ''nosetup''))
                 else if name = ''rt/p/descriptors/h3'' then Some (Inr (Inr ''clang''))
                 else if name = ''rt/p/descriptors/h4'' then Some (Inr (Inr ''unknown''))
                 else if name = ''rt/q/descriptors/h5'' then Some (Inr (Inr ''gcc''))
                 else if name = ''bad/p/descriptors/h1'' then Some (Inr (Inr ''gcc''))
                 else if name = ''bad/p/descriptors/h2'' then Some (Inr (Inl (ErrExternal ''read'')))
                 else if name = ''rt/seq'' then Some (Inr (Inr ''7''))
                 else Some (Inl ErrObjectNotExist))\<rparr>"

definition ex_client :: Client where
  "ex_client bucket = (if bucket = ''cfg'' then Some ex_bucket else None)"

definition ex_desc :: "ObjectAttrs \<Rightarrow> CmdDescriptor" where
  "ex_desc a =
     (case loadDescriptor ex_world ex_client ''cfg'' (attrs_Name a) of
        Inl _ \<Rightarrow> \<lparr>cd_Selector = None, cd_Setup = None\<rparr>
      | Inr d \<Rightarrow> d)"

definition ex_platform :: RemoteexecPlatform where
  "ex_platform = \<lparr>rbe_Properties = [], rbe_HasNsjail = False\<rparr>"

text \<open>
  A config map with the runtime \<open>rt\<close> and a runtime \<open>noaddr\<close> whose service address is
  empty, and a store that holds a stale \<open>rt\<close>, a stale \<open>noaddr\<close> and a runtime
  \<open>gone\<close> that the config map no longer has.
\<close>

definition ex_ConfigMap :: ConfigMap where
  "ex_ConfigMap =
     \<lparr>cm_Seqs = Inr [(''rt'', ''7''), (''noaddr'', ''3'')],
      cm_Bucket = Inr ''cfg'',
      cm_RuntimeConfigs =
        Inr [(''rt'', ex_rc), (''noaddr'', ex_rc\<lparr>rc_Name := ''noaddr'', rc_ServiceAddr := []\<rparr>)]\<rparr>"

definition ex_loader :: "ConfigStore \<Rightarrow> ConfigMapLoader" where
  "ex_loader store =
     \<lparr>cml_ConfigMap = ex_ConfigMap,
      cml_ConfigLoader = \<lparr>cl_StorageClient = ex_client, cl_EnableParallel = True\<rparr>,
      cml_ConfigStore = store\<rparr>"

definition ex_store :: ConfigStore where
  "ex_store =
     [(''gone'', \<lparr>c_seq = ''1'', c_configs = []\<rparr>),
      (''noaddr'', \<lparr>c_seq = ''2'', c_configs = []\<rparr>),
      (''rt'', \<lparr>c_seq = ''6'', c_configs = []\<rparr>)]"

text \<open>
  The same config map restricted to \<open>rt\<close>, one that names a runtime \<open>ghost\<close> without
  metadata, and a store that is in step with the config map.
\<close>

definition ex_rt_only :: ConfigMapLoader where
  "ex_rt_only = (ex_loader ex_store)\<lparr>cml_ConfigMap := ex_ConfigMap\<lparr>cm_Seqs := Inr [(''rt'', ''7'')]\<rparr>\<rparr>"

definition ex_ghost :: ConfigMapLoader where
  "ex_ghost = (ex_loader ex_store)\<lparr>cml_ConfigMap := ex_ConfigMap\<lparr>cm_Seqs := Inr [(''ghost'', ''1'')]\<rparr>\<rparr>"

definition ex_synced :: ConfigStore where
  "ex_synced =
     [(''noaddr'', \<lparr>c_seq = ''3'', c_configs = []\<rparr>), (''rt'', \<lparr>c_seq = ''7'', c_configs = []\<rparr>)]"

text \<open>
  The config map read from the bucket: it lists \<open>rt\<close>, whose \<open>seq\<close> object holds
  \<open>7\<close>, and \<open>noseq\<close>, which has no \<open>seq\<close> object. In the second client the \<open>seq\<close>
  object of \<open>rt\<close> is empty.
\<close>

definition ex_cmb :: ConfigMapBucket where
  "ex_cmb =
     \<lparr>cmb_URI = ''gs://cfg/'',
      cmb_ConfigMap = \<lparr>cmp_Runtimes = [ex_rc, ex_rc\<lparr>rc_Name := ''noseq''\<rparr>]\<rparr>,
      cmb_ConfigMapFile = [],
      cmb_StorageClient = ex_client,
      cmb_RemoteexecAddr = ''exec:443''\<rparr>"

definition ex_client_empty_seq :: Client where
  "ex_client_empty_seq bucket =
     (if bucket = ''cfg'' then
        Some (ex_bucket\<lparr>bkt_Object :=
                (\<lambda>name. if name = ''rt/seq'' then Some (Inr (Inr [])) else bkt_Object ex_bucket name)\<rparr>)
      else None)"

definition ex_noseq_store :: ConfigStore where
  "ex_noseq_store =
     [(''noseq'', \<lparr>c_seq = ''4'', c_configs = []\<rparr>), (''rt'', \<lparr>c_seq = ''7'', c_configs = []\<rparr>)]"

definition ex_bucket_loader :: ConfigMapLoader where
  "ex_bucket_loader =
     \<lparr>cml_ConfigMap = ConfigMapBucket_ConfigMap ex_world ex_cmb,
      cml_ConfigLoader = \<lparr>cl_StorageClient = ex_client, cl_EnableParallel = False\<rparr>,
      cml_ConfigStore = ex_noseq_store\<rparr>"

section \<open>Properties of the property merge\<close>

lemma merge_names_fold:
  "fold (\<lambda>p m. m(rp_Name p := True)) ps m0 n = (m0 n \<or> n \<in> rp_Name ` set ps)"
  by (induction ps arbitrary: m0) auto

lemma merge_names_iff: "merge_names ps n = (n \<in> rp_Name ` set ps)"
  by (simp add: merge_names_def merge_names_fold)

lemma merge_append_eq:
  "merge_append m acc ps =
     acc @ map (\<lambda>p. \<lparr>rp_Name = pp_Name p, rp_Value = pp_Value p\<rparr>)
             (filter (\<lambda>p. \<not> m (pp_Name p)) ps)"
  by (induction ps arbitrary: acc) auto

text \<open>
  C9. The merge keeps the target's properties as they are and appends, in the source's
  order, the source properties whose name does not occur in the target; a missing
  source changes nothing. The example of the specification is the last conjunct.
\<close>

theorem mergePlatformProperties_target_wins:
  "rbe_Properties (mergePlatformProperties target (Some source)) =
     rbe_Properties target @
       map (\<lambda>p. \<lparr>rp_Name = pp_Name p, rp_Value = pp_Value p\<rparr>)
         (filter (\<lambda>p. pp_Name p \<notin> rp_Name ` set (rbe_Properties target))
            (pl_Properties source))
   \<and> rbe_HasNsjail (mergePlatformProperties target (Some source)) = rbe_HasNsjail target
   \<and> mergePlatformProperties target None = target
   \<and> rbe_Properties
        (mergePlatformProperties
           \<lparr>rbe_Properties = [\<lparr>rp_Name = ''OS'', rp_Value = ''Linux''\<rparr>], rbe_HasNsjail = False\<rparr>
           (Some \<lparr>pl_Properties = [\<lparr>pp_Name = ''OS'', pp_Value = ''Windows''\<rparr>,
                                    \<lparr>pp_Name = ''ABI'', pp_Value = ''x64''\<rparr>]\<rparr>))
      = [\<lparr>rp_Name = ''OS'', rp_Value = ''Linux''\<rparr>, \<lparr>rp_Name = ''ABI'', rp_Value = ''x64''\<rparr>]"
  by (simp add: mergePlatformProperties_def merge_append_eq merge_names_iff)

section \<open>The order of finishing and the worker pool\<close>

lemma pick_order_step:
  assumes "ys \<noteq> []"
  shows "\<exists>j < length ys. pick_order k choices ys =
           ys ! j # pick_order k (tl choices) (take j ys @ drop (Suc j) ys)"
proof -
  obtain x xs where ys: "ys = x # xs" using assms by (cases ys) auto
  define j where "j = next_choice choices mod length (take (max 1 k) ys)"
  have "0 < length (take (max 1 k) ys)" "length (take (max 1 k) ys) \<le> length ys"
    using assms by (auto simp: min_def max_def)
  then have "j < length ys"
    unfolding j_def by (auto intro: less_le_trans [OF mod_less_divisor])
  moreover have "pick_order k choices ys =
      ys ! j # pick_order k (tl choices) (take j ys @ drop (Suc j) ys)"
    unfolding j_def ys by (simp only: pick_order.simps Let_def)
  ultimately show ?thesis by blast
qed

lemma pick_order_mset: "mset (pick_order k choices xs) = mset xs"
proof (induction "length xs" arbitrary: xs choices)
  case 0
  then show ?case by simp
next
  case (Suc n)
  then have "xs \<noteq> []" by auto
  from pick_order_step [OF this, of k choices] obtain j where
    j: "j < length xs" and
    E: "pick_order k choices xs = xs ! j # pick_order k (tl choices) (take j xs @ drop (Suc j) xs)"
    by blast
  have "length (take j xs @ drop (Suc j) xs) = n"
    using j Suc.hyps(2) by (simp add: min_def)
  then have "mset (pick_order k (tl choices) (take j xs @ drop (Suc j) xs))
      = mset (take j xs @ drop (Suc j) xs)"
    using Suc.hyps(1) by simp
  then have "mset (pick_order k choices xs) = mset (take j xs @ xs ! j # drop (Suc j) xs)"
    by (simp add: E)
  then show ?case using id_take_nth_drop [OF j] by simp
qed

lemma pick_order_set: "set (pick_order k choices xs) = set xs"
  using pick_order_mset [of k choices xs] by (metis set_mset_mset)

lemma pick_order_distinct: "distinct (pick_order k choices xs) = distinct xs"
  using pick_order_mset [of k choices xs] by (metis mset_eq_imp_distinct_iff)

lemma pick_order_serial: "k \<le> 1 \<Longrightarrow> pick_order k choices xs = xs"
proof (induction xs arbitrary: choices)
  case Nil
  show ?case by simp
next
  case (Cons x xs)
  have "max 1 k = 1" using Cons.prems by simp
  then show ?case using Cons.IH [OF Cons.prems] by (simp add: Let_def)
qed

lemma finish_length: "length (fst (finish body i st)) = length (fst st)"
  by (simp add: finish_def split: sum.splits option.splits)

lemma fold_finish_length: "length (fst (fold (finish body) is st)) = length (fst st)"
  by (induction "is" arbitrary: st) (simp_all add: finish_length)

lemma fold_finish_err:
  "snd (fold (finish body) is st) =
     (case snd st of Some e \<Rightarrow> Some e | None \<Rightarrow> first_error body is)"
proof (induction "is" arbitrary: st)
  case Nil
  show ?case by (simp split: option.splits)
next
  case (Cons i "is")
  show ?case
    by (simp add: Cons.IH) (simp add: finish_def split: sum.splits option.splits)
qed

lemma fold_finish_slot:
  "j < length (fst st) \<Longrightarrow>
   fst (fold (finish body) is st) ! j =
     (if j \<in> set is \<and> slot (body j) \<noteq> None then slot (body j) else fst st ! j)"
proof (induction "is" arbitrary: st)
  case Nil
  show ?case by simp
next
  case (Cons i "is")
  have len: "j < length (fst (finish body i st))"
    using Cons.prems by (simp add: finish_length)
  have step: "fst (finish body i st) ! j =
      (if j = i \<and> slot (body j) \<noteq> None then slot (body j) else fst st ! j)"
    using Cons.prems
    by (auto simp: finish_def slot_def nth_list_update split: sum.splits option.splits)
  show ?case
    using Cons.IH [OF len] step by auto
qed

lemma first_error_None: "(first_error body is = None) = (\<forall>i \<in> set is. \<not> isl (body i))"
  by (induction "is") (auto split: sum.splits)

lemma first_error_Some: "first_error body is = Some e \<Longrightarrow> \<exists>i \<in> set is. body i = Inl e"
  by (induction "is") (auto split: sum.splits)

lemma run_workers_eq:
  "run_workers k choices body n =
     (case first_error body (pick_order k choices [0..<n]) of
        Some err \<Rightarrow> Inl err
      | None \<Rightarrow> Inr (compact (map (\<lambda>i. slot (body i)) [0..<n])))"
proof -
  define st where "st = fold (finish body) (pick_order k choices [0..<n]) (replicate n None, None)"
  have len: "length (fst st) = n"
    by (simp add: st_def fold_finish_length)
  have err: "snd st = first_error body (pick_order k choices [0..<n])"
    by (simp add: st_def fold_finish_err)
  have "fst st ! j = slot (body j)" if "j < n" for j
    using that fold_finish_slot [of j "(replicate n None, None)" body "pick_order k choices [0..<n]"]
    by (auto simp: st_def pick_order_set)
  then have slots: "fst st = map (\<lambda>i. slot (body i)) [0..<n]"
    using len by (auto simp: list_eq_iff_nth_eq)
  show ?thesis
    unfolding run_workers_def st_def [symmetric]
    using err slots by (cases st) (auto split: option.splits)
qed

lemma run_workers_returned:
  "returned (run_workers k choices body n) =
     (if \<exists>i < n. isl (body i) then None else Some (compact (map (\<lambda>i. slot (body i)) [0..<n])))"
proof (cases "first_error body (pick_order k choices [0..<n])")
  case None
  then have "\<forall>i < n. \<not> isl (body i)"
    by (simp add: first_error_None pick_order_set)
  then show ?thesis by (simp add: run_workers_eq None returned_def)
next
  case (Some e)
  then have "\<exists>i < n. isl (body i)"
    using first_error_Some [OF Some] by (auto simp: pick_order_set)
  then show ?thesis by (simp add: run_workers_eq Some returned_def)
qed

section \<open>Loading the descriptors: order, dropped records, failures\<close>

lemma loadDescriptor_world:
  "loadDescriptor (w\<lparr>w_finish := f, w_NumCPU := n\<rparr>) client bucket name =
   loadDescriptor w client bucket name"
  by (simp add: loadDescriptor_def split: sum.splits)

lemma worker_world [simp]:
  "worker (w\<lparr>w_finish := f, w_NumCPU := n\<rparr>) client bucket rc platform attrs =
   worker w client bucket rc platform attrs"
  by (simp only: worker_def loadDescriptor_world)

lemma map_body_nth:
  "map (\<lambda>i. f (xs ! i)) [0..<length xs] = map f xs"
proof -
  have "map (\<lambda>i. f (xs ! i)) [0..<length xs] = map f (map ((!) xs) [0..<length xs])"
    by simp
  then show ?thesis by (simp only: map_nth)
qed

lemma loadConfigs_returned:
  assumes "splitGCSPath uri = Inr (bucket, obj)" "client bucket = Some bkt"
    "list_objects rc (bkt_Objects bkt obj) [] = Inr attrsList"
  shows "returned (loadConfigs w client uri rc platform parallel) =
     (if \<exists>a \<in> set attrsList. isl (worker w client bucket rc platform a) then None
      else Some (compact (map (\<lambda>a. slot (worker w client bucket rc platform a)) attrsList)))"
proof -
  have "(\<exists>i < length attrsList. isl (worker w client bucket rc platform (attrsList ! i))) =
      (\<exists>a \<in> set attrsList. isl (worker w client bucket rc platform a))"
    by (metis in_set_conv_nth)
  then show ?thesis
    using assms
    by (simp add: loadConfigs_def run_workers_returned
        map_body_nth [of "\<lambda>a. slot (worker w client bucket rc platform a)"])
qed

text \<open>
  C3. The list \<open>loadConfigs\<close> returns (nil when it returns an error) is the same for
  the serial run and for a parallel run with any number of CPUs and any order in which
  the workers finish: it is the compaction, in listing order, of the slots.
\<close>

theorem loadConfigs_order_independent:
  "returned (loadConfigs (w\<lparr>w_finish := f, w_NumCPU := n\<rparr>) client uri rc platform True) =
   returned (loadConfigs w client uri rc platform False)"
proof (cases "splitGCSPath uri")
  case (Inl err)
  then show ?thesis by (simp add: loadConfigs_def)
next
  case (Inr p)
  obtain bucket obj where p: "p = (bucket, obj)" by (cases p)
  show ?thesis
  proof (cases "client bucket")
    case None
    then show ?thesis using Inr p by (simp add: loadConfigs_def)
  next
    case (Some bkt)
    show ?thesis
    proof (cases "list_objects rc (bkt_Objects bkt obj) []")
      case (Inl err)
      then show ?thesis using Inr p Some by (simp add: loadConfigs_def)
    next
      case listed: (Inr attrsList)
      show ?thesis
        using loadConfigs_returned [where client = client, OF Inr [unfolded p] Some listed] by simp
    qed
  qed
qed

lemma worker_loaded:
  "loadDescriptor w client bucket (attrs_Name a) = Inr d \<Longrightarrow>
   worker w client bucket rc platform a =
     Inr (if descriptor_ok rc d then Some (worker_Config rc platform a d) else None)"
  by (auto simp: worker_def descriptor_ok_def split: option.splits)

lemma worker_failed:
  "loadDescriptor w client bucket (attrs_Name a) = Inl e \<Longrightarrow>
   worker w client bucket rc platform a = Inl e"
  by (simp add: worker_def)

lemma worker_isl:
  "isl (worker w client bucket rc platform a) = isl (loadDescriptor w client bucket (attrs_Name a))"
  by (auto simp: worker_def split: sum.splits option.splits)

lemma compact_loaded:
  "\<forall>a \<in> set xs. loadDescriptor w client bucket (attrs_Name a) = Inr (desc a) \<Longrightarrow>
   compact (map (\<lambda>a. slot (worker w client bucket rc platform a)) xs) =
     map (\<lambda>a. worker_Config rc platform a (desc a)) (filter (\<lambda>a. descriptor_ok rc (desc a)) xs)"
  by (induction xs) (auto simp: worker_loaded slot_def)

text \<open>
  C5. When every listed descriptor object that passed the filters is read and parsed,
  \<open>loadConfigs\<close> succeeds, whatever the later checks say: it returns, in listing
  order, the configs of exactly the descriptors that pass the selector check, have a
  setup and a known path type; the others are dropped one by one.
\<close>

theorem loadConfigs_drops_invalid:
  assumes "splitGCSPath uri = Inr (bucket, obj)" "client bucket = Some bkt"
    "list_objects rc (bkt_Objects bkt obj) [] = Inr attrsList"
    "\<forall>a \<in> set attrsList. loadDescriptor w client bucket (attrs_Name a) = Inr (desc a)"
  shows "loadConfigs w client uri rc platform parallel =
     Inr (map (\<lambda>a. worker_Config rc platform a (desc a))
            (filter (\<lambda>a. descriptor_ok rc (desc a)) attrsList))"
proof -
  have "\<not> (\<exists>a \<in> set attrsList. isl (worker w client bucket rc platform a))"
    using assms(4) by (auto simp: worker_isl)
  then have "returned (loadConfigs w client uri rc platform parallel) =
      Some (compact (map (\<lambda>a. slot (worker w client bucket rc platform a)) attrsList))"
    using loadConfigs_returned [where client = client, OF assms(1-3)] by simp
  then show ?thesis
    using compact_loaded [OF assms(4)]
    by (auto simp: returned_def split: sum.splits)
qed

text \<open>
  C6. When reading or parsing one of the listed descriptor objects fails,
  \<open>loadConfigs\<close> returns an error and no list, serial or parallel; the error is the
  one \<open>loadDescriptor\<close> gave for one of the objects.
\<close>

theorem loadConfigs_fails_on_load_error:
  assumes "splitGCSPath uri = Inr (bucket, obj)" "client bucket = Some bkt"
    "list_objects rc (bkt_Objects bkt obj) [] = Inr attrsList"
    "a \<in> set attrsList" "loadDescriptor w client bucket (attrs_Name a) = Inl e"
  shows "\<exists>e'. loadConfigs w client uri rc platform parallel = Inl e' \<and>
     (\<exists>a' \<in> set attrsList. loadDescriptor w client bucket (attrs_Name a') = Inl e')"
proof -
  define k where "k = (if parallel then max 1 (w_NumCPU w) * 4 else 1)"
  define body where "body = (\<lambda>i. worker w client bucket rc platform (attrsList ! i))"
  define order where "order = pick_order k (w_finish w uri) [0..<length attrsList]"
  have run: "loadConfigs w client uri rc platform parallel =
      (case first_error body order of
         Some err \<Rightarrow> Inl err
       | None \<Rightarrow> Inr (compact (map (\<lambda>i. slot (body i)) [0..<length attrsList])))"
    unfolding k_def body_def order_def loadConfigs_def
    using assms(1-3) by (simp add: run_workers_eq)
  obtain i where i: "i < length attrsList" "attrsList ! i = a"
    using assms(4) by (auto simp: in_set_conv_nth)
  then have "isl (body i)" "i \<in> set order"
    using assms(5) by (simp_all add: body_def worker_failed order_def pick_order_set)
  then have "first_error body order \<noteq> None"
    by (auto simp: first_error_None)
  then obtain e' where e': "first_error body order = Some e'" by auto
  from first_error_Some [OF this] obtain j where "j \<in> set order" "body j = Inl e'" by auto
  then have "j < length attrsList" "loadDescriptor w client bucket (attrs_Name (attrsList ! j)) = Inl e'"
    by (auto simp: order_def pick_order_set body_def worker_def split: sum.splits option.splits if_splits)
  then show ?thesis
    using run e' by (auto intro!: bexI [of _ "attrsList ! j"])
qed

section \<open>The example bucket\<close>

lemma ex_split: "splitGCSPath ''gs://cfg/rt'' = Inr (''cfg'', ''rt'')"
  by (simp add: splitGCSPath_def HasPrefix_def SplitN2_def)

lemma ex_listing: "list_objects ex_rc (bkt_Objects ex_bucket ''rt'') [] = Inr ex_attrs"
  by (simp add: ex_bucket_def ex_attrs_def ex_rc_def checkPrebuilt_def HasPrefix_def
      Base_def Dir_def Split_def Clean_def)

lemma ex_loads:
  "map (\<lambda>a. loadDescriptor ex_world ex_client ''cfg'' (attrs_Name a)) ex_attrs =
     map ex_Unmarshal [''gcc'', ''nosetup'', ''clang'', ''unknown'', ''gcc'']"
  by (simp add: ex_attrs_def loadDescriptor_def storageReadAll_def ex_client_def ex_bucket_def
      ex_world_def ex_Unmarshal_def)

lemma ex_split_bad: "splitGCSPath ''gs://cfg/bad'' = Inr (''cfg'', ''bad'')"
  by (simp add: splitGCSPath_def HasPrefix_def SplitN2_def)

lemma ex_listing_bad:
  "list_objects ex_rc (bkt_Objects ex_bucket ''bad'') [] =
     Inr [\<lparr>attrs_Name = ''bad/p/descriptors/h1'', attrs_Updated = 1\<rparr>,
          \<lparr>attrs_Name = ''bad/p/descriptors/h2'', attrs_Updated = 2\<rparr>]"
  by (simp add: ex_bucket_def ex_rc_def checkPrebuilt_def HasPrefix_def
      Base_def Dir_def Split_def Clean_def)

lemma ex_client_cfg: "ex_client ''cfg'' = Some ex_bucket"
  by (simp add: ex_client_def)

theorem loadConfigs_drops_invalid_witness:
  "splitGCSPath ''gs://cfg/rt'' = Inr (''cfg'', ''rt'') \<and>
   ex_client ''cfg'' = Some ex_bucket \<and>
   list_objects ex_rc (bkt_Objects ex_bucket ''rt'') [] = Inr ex_attrs \<and>
   map (\<lambda>a. loadDescriptor ex_world ex_client ''cfg'' (attrs_Name a)) ex_attrs =
     map (\<lambda>a. Inr (ex_desc a)) ex_attrs \<and>
   loadConfigs ex_world ex_client ''gs://cfg/rt'' ex_rc ex_platform True =
     Inr [worker_Config ex_rc ex_platform
            \<lparr>attrs_Name = ''rt/p/descriptors/h1'', attrs_Updated = 1\<rparr>
            \<lparr>cd_Selector = Some (ex_sel ''gcc''), cd_Setup = Some \<lparr>setup_PathType = POSIX\<rparr>\<rparr>,
          worker_Config ex_rc ex_platform
            \<lparr>attrs_Name = ''rt/q/descriptors/h5'', attrs_Updated = 5\<rparr>
            \<lparr>cd_Selector = Some (ex_sel ''gcc''), cd_Setup = Some \<lparr>setup_PathType = POSIX\<rparr>\<rparr>]"
proof -
  have loads: "\<forall>a \<in> set ex_attrs.
      loadDescriptor ex_world ex_client ''cfg'' (attrs_Name a) = Inr (ex_desc a)"
    by (simp add: ex_attrs_def ex_desc_def loadDescriptor_def storageReadAll_def ex_client_def
        ex_bucket_def ex_world_def ex_Unmarshal_def)
  have descs: "map ex_desc ex_attrs =
      [\<lparr>cd_Selector = Some (ex_sel ''gcc''), cd_Setup = Some \<lparr>setup_PathType = POSIX\<rparr>\<rparr>,
       \<lparr>cd_Selector = Some (ex_sel ''gcc''), cd_Setup = None\<rparr>,
       \<lparr>cd_Selector = Some (ex_sel ''clang''), cd_Setup = Some \<lparr>setup_PathType = POSIX\<rparr>\<rparr>,
       \<lparr>cd_Selector = Some (ex_sel ''gcc''), cd_Setup = Some \<lparr>setup_PathType = UNKNOWN_PATH_TYPE\<rparr>\<rparr>,
       \<lparr>cd_Selector = Some (ex_sel ''gcc''), cd_Setup = Some \<lparr>setup_PathType = POSIX\<rparr>\<rparr>]"
    by (simp add: ex_attrs_def ex_desc_def loadDescriptor_def storageReadAll_def ex_client_def
        ex_bucket_def ex_world_def ex_Unmarshal_def)
  have "loadConfigs ex_world ex_client ''gs://cfg/rt'' ex_rc ex_platform True =
      Inr (map (\<lambda>a. worker_Config ex_rc ex_platform a (ex_desc a))
             (filter (\<lambda>a. descriptor_ok ex_rc (ex_desc a)) ex_attrs))"
    using loadConfigs_drops_invalid [where client = ex_client, OF ex_split ex_client_cfg ex_listing loads] .
  moreover have "map (\<lambda>a. worker_Config ex_rc ex_platform a (ex_desc a))
             (filter (\<lambda>a. descriptor_ok ex_rc (ex_desc a)) ex_attrs) =
     [worker_Config ex_rc ex_platform
            \<lparr>attrs_Name = ''rt/p/descriptors/h1'', attrs_Updated = 1\<rparr>
            \<lparr>cd_Selector = Some (ex_sel ''gcc''), cd_Setup = Some \<lparr>setup_PathType = POSIX\<rparr>\<rparr>,
          worker_Config ex_rc ex_platform
            \<lparr>attrs_Name = ''rt/q/descriptors/h5'', attrs_Updated = 5\<rparr>
            \<lparr>cd_Selector = Some (ex_sel ''gcc''), cd_Setup = Some \<lparr>setup_PathType = POSIX\<rparr>\<rparr>]"
    using descs
    by (simp add: ex_attrs_def descriptor_ok_def checkSelector_def ex_rc_def ex_sel_def)
  ultimately show ?thesis
    using ex_split ex_client_cfg ex_listing loads by simp
qed

theorem loadConfigs_fails_on_load_error_witness:
  "splitGCSPath ''gs://cfg/bad'' = Inr (''cfg'', ''bad'') \<and>
   ex_client ''cfg'' = Some ex_bucket \<and>
   loadDescriptor ex_world ex_client ''cfg'' ''bad/p/descriptors/h2'' =
     Inl (ErrLoad ''bad/p/descriptors/h2'' (ErrExternal ''read'')) \<and>
   loadConfigs ex_world ex_client ''gs://cfg/bad'' ex_rc ex_platform True =
     Inl (ErrLoad ''bad/p/descriptors/h2'' (ErrExternal ''read''))"
proof -
  have h1: "loadDescriptor ex_world ex_client ''cfg'' ''bad/p/descriptors/h1'' =
      Inr \<lparr>cd_Selector = Some (ex_sel ''gcc''), cd_Setup = Some \<lparr>setup_PathType = POSIX\<rparr>\<rparr>"
    by (simp add: loadDescriptor_def storageReadAll_def ex_client_def ex_bucket_def ex_world_def
        ex_Unmarshal_def)
  have h2: "loadDescriptor ex_world ex_client ''cfg'' ''bad/p/descriptors/h2'' =
      Inl (ErrLoad ''bad/p/descriptors/h2'' (ErrExternal ''read''))"
    by (simp add: loadDescriptor_def storageReadAll_def ex_client_def ex_bucket_def)
  have "\<exists>e'. loadConfigs ex_world ex_client ''gs://cfg/bad'' ex_rc ex_platform True = Inl e' \<and>
      (\<exists>a' \<in> set [\<lparr>attrs_Name = ''bad/p/descriptors/h1'', attrs_Updated = 1\<rparr>,
                    \<lparr>attrs_Name = ''bad/p/descriptors/h2'', attrs_Updated = 2\<rparr>].
         loadDescriptor ex_world ex_client ''cfg'' (attrs_Name a') = Inl e')"
    using loadConfigs_fails_on_load_error [where client = ex_client and
        a = "\<lparr>attrs_Name = ''bad/p/descriptors/h2'', attrs_Updated = 2\<rparr>",
        OF ex_split_bad ex_client_cfg ex_listing_bad] h2
    by simp
  then have "loadConfigs ex_world ex_client ''gs://cfg/bad'' ex_rc ex_platform True =
      Inl (ErrLoad ''bad/p/descriptors/h2'' (ErrExternal ''read''))"
    using h1 h2 by auto
  then show ?thesis
    using ex_split_bad ex_client_cfg h2 by simp
qed

section \<open>The store, the diff and the reload loop\<close>

lemma ConfigStore_List_set: "set (ConfigStore_List store) = fst ` set store"
  by (simp add: ConfigStore_List_def)

lemma ConfigStore_Seq_cong:
  "map_of store' n = map_of store n \<Longrightarrow> ConfigStore_Seq store' n = ConfigStore_Seq store n"
  by (simp add: ConfigStore_Seq_def)

lemma Load_diff_deleted:
  "snd (Load_diff store xs (u, d)) = filter (\<lambda>k. k \<notin> fst ` set xs) d"
proof (induction xs arbitrary: u d)
  case Nil
  show ?case by simp
next
  case (Cons x xs)
  obtain name seq where x: "x = (name, seq)" by (cases x)
  have "filter (\<lambda>k. k \<notin> fst ` set xs) (removeAll name d) =
      filter (\<lambda>k. k \<notin> fst ` set ((name, seq) # xs)) d"
    by (induction d) auto
  then show ?case by (simp add: x Cons.IH)
qed

lemma Load_diff_updated:
  "distinct (map fst xs) \<Longrightarrow>
   map_of (fst (Load_diff store xs (u, d))) n =
     (case map_of xs n of
        None \<Rightarrow> map_of u n
      | Some t \<Rightarrow> if ConfigStore_Seq store n \<noteq> t then Some t else map_of u n)"
proof (induction xs arbitrary: u d)
  case Nil
  show ?case by simp
next
  case (Cons x xs)
  obtain name seq where x: "x = (name, seq)" by (cases x)
  have notin: "name \<notin> fst ` set xs" and dist: "distinct (map fst xs)"
    using Cons.prems by (auto simp: x)
  have none: "map_of xs name = None"
    using notin by (simp add: map_of_eq_None_iff)
  show ?case
    using none by (auto simp: x Cons.IH [OF dist] update_conv' split: option.splits)
qed

lemma Load_diff_distinct:
  "distinct (map fst u) \<Longrightarrow> distinct (map fst (fst (Load_diff store xs (u, d))))"
proof (induction xs arbitrary: u d)
  case Nil
  then show ?case by simp
next
  case (Cons x xs)
  obtain name seq where x: "x = (name, seq)" by (cases x)
  show ?case
    using Cons.prems by (auto simp: x intro!: Cons.IH distinct_update)
qed

lemma Load_updated_map:
  "map_of (Load_updated store seqs) n =
     (case map_of seqs n of
        None \<Rightarrow> None
      | Some t \<Rightarrow> if ConfigStore_Seq store n \<noteq> t then Some t else None)"
  using Load_diff_updated [of "AList.clearjunk seqs" store "[]" "ConfigStore_List store" n]
  by (simp add: Load_updated_def map_of_clearjunk split: option.splits)

lemma Load_updated_distinct: "distinct (map fst (Load_updated store seqs))"
  by (simp add: Load_updated_def Load_diff_distinct)

lemma Load_updated_mem:
  "((n, t) \<in> set (Load_updated store seqs)) =
     (map_of seqs n = Some t \<and> ConfigStore_Seq store n \<noteq> t)"
proof -
  have "((n, t) \<in> set (Load_updated store seqs)) = (map_of (Load_updated store seqs) n = Some t)"
    using Load_updated_distinct [of store seqs] by (auto simp: map_of_eq_Some_iff)
  then show ?thesis
    by (auto simp: Load_updated_map split: option.splits if_splits)
qed

lemma Load_updated_keys:
  "fst ` set (Load_updated store seqs) =
     {n. \<exists>t. map_of seqs n = Some t \<and> ConfigStore_Seq store n \<noteq> t}"
  using Load_updated_mem [of _ _ store seqs] by (auto simp: image_iff) (metis fst_conv)+

lemma Load_deleted_filter:
  "Load_deleted store seqs = filter (\<lambda>k. k \<notin> fst ` set seqs) (ConfigStore_List store)"
  by (simp add: Load_deleted_def Load_diff_deleted dom_clearjunk)

lemma Load_deleted_set: "set (Load_deleted store seqs) = fst ` set store - fst ` set seqs"
  by (auto simp: Load_deleted_filter ConfigStore_List_set)

lemma fold_Delete_map:
  "map_of (fold ConfigStore_Delete ks store) n = (if n \<in> set ks then None else map_of store n)"
  by (induction ks arbitrary: store) (auto simp: ConfigStore_Delete_def delete_conv')

lemma fold_Delete_keys:
  "fst ` set (fold ConfigStore_Delete ks store) = fst ` set store - set ks"
proof -
  have "dom (map_of (fold ConfigStore_Delete ks store)) = dom (map_of store) - set ks"
    by (auto simp: fold_Delete_map dom_def)
  then show ?thesis by (simp add: dom_map_of_conv_image_fst)
qed

lemma range_order_mset: "mset (range_order choices xs) = mset xs"
  by (simp add: range_order_def pick_order_mset)

lemma range_order_set: "set (range_order choices xs) = set xs"
  by (simp add: range_order_def pick_order_set)

lemma range_order_distinct_keys:
  "distinct (map fst (range_order choices xs)) = distinct (map fst xs)"
proof -
  have "mset (map fst (range_order choices xs)) = mset (map fst xs)"
    using range_order_mset [of choices xs] by (metis mset_map)
  then show ?thesis by (rule mset_eq_imp_distinct_iff)
qed

lemma Load_reload_keys:
  "fst ` set (snd (Load_reload w cl bucket rcs us store)) \<subseteq> fst ` set store \<union> fst ` set us"
proof (induction us arbitrary: store)
  case Nil
  show ?case by simp
next
  case (Cons u us)
  obtain name seq where u: "u = (name, seq)" by (cases u)
  show ?case
  proof (cases "map_of rcs name")
    case None
    then show ?thesis by (auto simp: u)
  next
    case (Some rt)
    show ?thesis
    proof (cases "rc_ServiceAddr rt = []")
      case True
      then show ?thesis using Cons.IH [of store] Some by (auto simp: u)
    next
      case False
      show ?thesis
      proof (cases "ConfigLoader_Load w cl (''gs://'' @ bucket @ ''/'' @ name) rt")
        case (Inl err)
        then show ?thesis using Some False by (auto simp: u)
      next
        case (Inr confs)
        have "fst ` set (ConfigStore_Set name seq confs store) = {name} \<union> fst ` set store"
          by (simp add: ConfigStore_Set_def dom_update)
        then show ?thesis
          using Cons.IH [of "ConfigStore_Set name seq confs store"] Some False Inr
          by (auto simp: u)
      qed
    qed
  qed
qed

lemma Load_reload_untouched:
  "n \<notin> fst ` set us \<or> skipped rcs n \<Longrightarrow>
   map_of (snd (Load_reload w cl bucket rcs us store)) n = map_of store n"
proof (induction us arbitrary: store)
  case Nil
  show ?case by simp
next
  case (Cons u us)
  obtain name seq where u: "u = (name, seq)" by (cases u)
  have rest: "n \<notin> fst ` set us \<or> skipped rcs n"
    using Cons.prems by auto
  show ?case
  proof (cases "map_of rcs name")
    case None
    then show ?thesis by (simp add: u)
  next
    case (Some rt)
    show ?thesis
    proof (cases "rc_ServiceAddr rt = []")
      case True
      then show ?thesis using Cons.IH [OF rest] Some by (simp add: u)
    next
      case False
      then have ne: "n \<noteq> name"
        using Cons.prems Some by (auto simp: u skipped_def)
      show ?thesis
      proof (cases "ConfigLoader_Load w cl (''gs://'' @ bucket @ ''/'' @ name) rt")
        case (Inl err)
        then show ?thesis using Some False by (simp add: u)
      next
        case (Inr confs)
        have "map_of (ConfigStore_Set name seq confs store) n = map_of store n"
          using ne by (simp add: ConfigStore_Set_def update_conv')
        then show ?thesis
          using Cons.IH [OF rest, of "ConfigStore_Set name seq confs store"] Some False Inr
          by (simp add: u)
      qed
    qed
  qed
qed

lemma Load_reload_missing:
  "(n, t) \<in> set us \<Longrightarrow> map_of rcs n = None \<Longrightarrow>
   \<exists>e. fst (Load_reload w cl bucket rcs us store) = Some e \<and>
     ((\<exists>m \<in> fst ` set us. map_of rcs m = None \<and> e = ErrRuntimeConfigNotFound m) \<or>
      (\<exists>m \<in> fst ` set us. \<exists>rt. map_of rcs m = Some rt \<and>
           ConfigLoader_Load w cl (''gs://'' @ bucket @ ''/'' @ m) rt = Inl e))"
proof (induction us arbitrary: store)
  case Nil
  then show ?case by simp
next
  case (Cons u us)
  obtain name seq where u: "u = (name, seq)" by (cases u)
  show ?case
  proof (cases "map_of rcs name")
    case None
    then show ?thesis by (auto simp: u)
  next
    case (Some rt)
    then have mem: "(n, t) \<in> set us"
      using Cons.prems by (auto simp: u)
    show ?thesis
    proof (cases "rc_ServiceAddr rt = []")
      case True
      then show ?thesis
        using Cons.IH [OF mem Cons.prems(2), of store] Some by (auto simp: u)
    next
      case False
      show ?thesis
      proof (cases "ConfigLoader_Load w cl (''gs://'' @ bucket @ ''/'' @ name) rt")
        case (Inl err)
        then show ?thesis using Some False by (auto simp: u)
      next
        case (Inr confs)
        then show ?thesis
          using Cons.IH [OF mem Cons.prems(2), of "ConfigStore_Set name seq confs store"] Some False
          by (auto simp: u)
      qed
    qed
  qed
qed

lemma Load_reload_ok:
  "\<forall>n \<in> fst ` set us. loadable w cl bucket rcs n \<Longrightarrow>
   fst (Load_reload w cl bucket rcs us store) = None"
proof (induction us arbitrary: store)
  case Nil
  show ?case by simp
next
  case (Cons u us)
  obtain name seq where u: "u = (name, seq)" by (cases u)
  have rest: "\<forall>n \<in> fst ` set us. loadable w cl bucket rcs n"
    using Cons.prems by simp
  have "loadable w cl bucket rcs name"
    using Cons.prems by (simp add: u)
  then show ?case
    using Cons.IH [OF rest]
    by (auto simp: u loadable_def split: option.splits sum.splits)
qed

lemma Load_reload_synced:
  "fst (Load_reload w cl bucket rcs us store) = None \<Longrightarrow> distinct (map fst us) \<Longrightarrow>
   (n, t) \<in> set us \<Longrightarrow> \<not> skipped rcs n \<Longrightarrow>
   ConfigStore_Seq (snd (Load_reload w cl bucket rcs us store)) n = t"
proof (induction us arbitrary: store)
  case Nil
  then show ?case by simp
next
  case (Cons u us)
  obtain name seq where u: "u = (name, seq)" by (cases u)
  have dist: "distinct (map fst us)" and notin: "name \<notin> fst ` set us"
    using Cons.prems(2) by (auto simp: u)
  show ?case
  proof (cases "map_of rcs name")
    case None
    then show ?thesis using Cons.prems(1) by (simp add: u)
  next
    case (Some rt)
    show ?thesis
    proof (cases "rc_ServiceAddr rt = []")
      case True
      then have "n \<noteq> name"
        using Cons.prems(4) Some by (auto simp: skipped_def)
      then have mem: "(n, t) \<in> set us"
        using Cons.prems(3) by (simp add: u)
      show ?thesis
        using Cons.IH [OF _ dist mem Cons.prems(4), of store] Cons.prems(1) Some True
        by (simp add: u)
    next
      case False
      show ?thesis
      proof (cases "ConfigLoader_Load w cl (''gs://'' @ bucket @ ''/'' @ name) rt")
        case (Inl err)
        then show ?thesis using Cons.prems(1) Some False by (simp add: u)
      next
        case (Inr confs)
        define store' where "store' = ConfigStore_Set name seq confs store"
        have step: "Load_reload w cl bucket rcs (u # us) store =
            Load_reload w cl bucket rcs us store'"
          using Some False Inr by (simp add: u store'_def)
        show ?thesis
        proof (cases "n = name")
          case True
          then have "t = seq"
            using Cons.prems(3) notin by (auto simp: u image_iff)
          have "map_of (snd (Load_reload w cl bucket rcs us store')) n = map_of store' n"
            using Load_reload_untouched [of n us rcs] notin True by simp
          then have "ConfigStore_Seq (snd (Load_reload w cl bucket rcs us store')) n =
              ConfigStore_Seq store' n"
            by (rule ConfigStore_Seq_cong)
          also have "\<dots> = t"
            using True \<open>t = seq\<close>
            by (simp add: store'_def ConfigStore_Seq_def ConfigStore_Set_def update_conv')
          finally show ?thesis by (simp add: step)
        next
          case False
          then have mem: "(n, t) \<in> set us"
            using Cons.prems(3) by (simp add: u)
          show ?thesis
            using Cons.IH [OF _ dist mem Cons.prems(4), of store'] Cons.prems(1)
            by (simp add: step)
        qed
      qed
    qed
  qed
qed

section \<open>One pass of the loader\<close>

lemma Load_run:
  assumes "cm_Seqs (cml_ConfigMap c) = Inr seqs" "cm_Bucket (cml_ConfigMap c) = Inr bucket"
    "cm_RuntimeConfigs (cml_ConfigMap c) = Inr rcs"
    "Load_updated (cml_ConfigStore c) seqs \<noteq> [] \<or> Load_deleted (cml_ConfigStore c) seqs \<noteq> [] \<or> force"
  shows "Load w c force =
     (case Load_reload w (cml_ConfigLoader c) bucket rcs
             (range_order (w_range w) (Load_updated (cml_ConfigStore c) seqs))
             (fold ConfigStore_Delete (Load_deleted (cml_ConfigStore c) seqs) (cml_ConfigStore c)) of
        (Some err, store2) \<Rightarrow> (Inl err, store2)
      | (None, store2) \<Rightarrow> (Inr (ConfigStore_ConfigResp w store2), store2))"
  using assms by (auto simp: Load_def Let_def)

lemma Load_unchanged:
  assumes "cm_Seqs (cml_ConfigMap c) = Inr seqs"
    "Load_updated (cml_ConfigStore c) seqs = []" "Load_deleted (cml_ConfigStore c) seqs = []"
  shows "Load w c False = (Inl ErrNoUpdate, cml_ConfigStore c)"
  using assms by (simp add: Load_def)

lemma Load_updated_Nil:
  "(Load_updated store seqs = []) =
     (\<forall>n t. map_of seqs n = Some t \<longrightarrow> ConfigStore_Seq store n = t)"
proof -
  have "(Load_updated store seqs = []) = (map_of (Load_updated store seqs) = Map.empty)"
    by simp
  also have "\<dots> = (\<forall>n. map_of (Load_updated store seqs) n = None)"
    by (auto simp: fun_eq_iff)
  also have "\<dots> = (\<forall>n t. map_of seqs n = Some t \<longrightarrow> ConfigStore_Seq store n = t)"
    by (auto simp: Load_updated_map split: option.splits)
  finally show ?thesis .
qed

lemma Load_deleted_Nil:
  "(Load_deleted store seqs = []) = (fst ` set store \<subseteq> fst ` set seqs)"
  using Load_deleted_set [of store seqs] by (metis Diff_eq_empty_iff set_empty)

lemma Load_reload_pair:
  "Load_reload w cl bucket rcs us store =
     (fst (Load_reload w cl bucket rcs us store), snd (Load_reload w cl bucket rcs us store))"
  by simp

lemma Load_run_snd:
  assumes "cm_Seqs (cml_ConfigMap c) = Inr seqs" "cm_Bucket (cml_ConfigMap c) = Inr bucket"
    "cm_RuntimeConfigs (cml_ConfigMap c) = Inr rcs"
    "Load_updated (cml_ConfigStore c) seqs \<noteq> [] \<or> Load_deleted (cml_ConfigStore c) seqs \<noteq> [] \<or> force"
  shows "snd (Load w c force) =
     snd (Load_reload w (cml_ConfigLoader c) bucket rcs
             (range_order (w_range w) (Load_updated (cml_ConfigStore c) seqs))
             (fold ConfigStore_Delete (Load_deleted (cml_ConfigStore c) seqs) (cml_ConfigStore c)))"
    and "fst (Load w c force) =
     (case fst (Load_reload w (cml_ConfigLoader c) bucket rcs
             (range_order (w_range w) (Load_updated (cml_ConfigStore c) seqs))
             (fold ConfigStore_Delete (Load_deleted (cml_ConfigStore c) seqs) (cml_ConfigStore c))) of
        Some err \<Rightarrow> Inl err
      | None \<Rightarrow> Inr (ConfigStore_ConfigResp w (snd (Load w c force))))"
  by (simp_all add: Load_run [OF assms] split: prod.splits option.splits)

lemma Load_updated_keys_subset: "fst ` set (Load_updated store seqs) \<subseteq> fst ` set seqs"
proof
  fix n
  assume "n \<in> fst ` set (Load_updated store seqs)"
  then obtain t where "map_of seqs n = Some t"
    by (auto simp: Load_updated_keys)
  then have "(n, t) \<in> set seqs" by (rule map_of_SomeD)
  then show "n \<in> fst ` set seqs" by force
qed

lemma Load_stored_kept:
  assumes "n \<in> fst ` set seqs"
  shows "map_of (fold ConfigStore_Delete (Load_deleted store seqs) store) n = map_of store n"
  using assms by (simp add: fold_Delete_map Load_deleted_set)

text \<open>
  C7. For a runtime marked for reload, once \<open>Seqs\<close>, \<open>Bucket\<close> and \<open>RuntimeConfigs\<close>
  have answered: if the metadata map has no entry for it, \<open>Load\<close> returns an error
  (the missing-metadata error of a marked runtime, or the load error of a marked runtime
  visited before); if its entry has an empty service address, its store entry is after
  the call what it was before, and the skip itself is no error: when every marked
  runtime is skipped or loads, \<open>Load\<close> returns the response.
\<close>

theorem Load_missing_metadata_or_address:
  assumes "cm_Seqs (cml_ConfigMap c) = Inr seqs" "cm_Bucket (cml_ConfigMap c) = Inr bucket"
    "cm_RuntimeConfigs (cml_ConfigMap c) = Inr rcs"
    "n \<in> fst ` set (Load_updated (cml_ConfigStore c) seqs)"
  shows "(map_of rcs n = None \<longrightarrow>
           (\<exists>e. fst (Load w c force) = Inl e \<and>
              ((\<exists>m \<in> fst ` set (Load_updated (cml_ConfigStore c) seqs).
                   map_of rcs m = None \<and> e = ErrRuntimeConfigNotFound m) \<or>
               (\<exists>m \<in> fst ` set (Load_updated (cml_ConfigStore c) seqs). \<exists>rt.
                   map_of rcs m = Some rt \<and>
                   ConfigLoader_Load w (cml_ConfigLoader c) (''gs://'' @ bucket @ ''/'' @ m) rt = Inl e)))) \<and>
         (skipped rcs n \<longrightarrow>
            map_of (snd (Load w c force)) n = map_of (cml_ConfigStore c) n \<and>
            ((\<forall>m \<in> fst ` set (Load_updated (cml_ConfigStore c) seqs).
                 loadable w (cml_ConfigLoader c) bucket rcs m) \<longrightarrow>
             fst (Load w c force) = Inr (ConfigStore_ConfigResp w (snd (Load w c force)))))"
proof -
  define store where "store = cml_ConfigStore c"
  define updated where "updated = Load_updated store seqs"
  define us where "us = range_order (w_range w) updated"
  define store1 where "store1 = fold ConfigStore_Delete (Load_deleted store seqs) store"
  have ne: "Load_updated (cml_ConfigStore c) seqs \<noteq> [] \<or>
      Load_deleted (cml_ConfigStore c) seqs \<noteq> [] \<or> force"
    using assms(4) by auto
  have run:
    "snd (Load w c force) = snd (Load_reload w (cml_ConfigLoader c) bucket rcs us store1)"
    "fst (Load w c force) =
       (case fst (Load_reload w (cml_ConfigLoader c) bucket rcs us store1) of
          Some err \<Rightarrow> Inl err
        | None \<Rightarrow> Inr (ConfigStore_ConfigResp w (snd (Load w c force))))"
    using Load_run_snd [OF assms(1-3) ne, of w]
    unfolding store_def updated_def us_def store1_def by simp_all
  have keys: "fst ` set us = fst ` set updated"
    by (simp add: us_def range_order_set)
  have n_us: "n \<in> fst ` set us"
    using assms(4) by (simp add: keys updated_def store_def)
  have missing: "\<exists>e. fst (Load w c force) = Inl e \<and>
              ((\<exists>m \<in> fst ` set updated. map_of rcs m = None \<and> e = ErrRuntimeConfigNotFound m) \<or>
               (\<exists>m \<in> fst ` set updated. \<exists>rt. map_of rcs m = Some rt \<and>
                   ConfigLoader_Load w (cml_ConfigLoader c) (''gs://'' @ bucket @ ''/'' @ m) rt = Inl e))"
    if none: "map_of rcs n = None"
  proof -
    obtain t where "(n, t) \<in> set us" using n_us by auto
    from Load_reload_missing [OF this none, of w "cml_ConfigLoader c" bucket store1]
    obtain e where e: "fst (Load_reload w (cml_ConfigLoader c) bucket rcs us store1) = Some e"
      and d: "(\<exists>m \<in> fst ` set us. map_of rcs m = None \<and> e = ErrRuntimeConfigNotFound m) \<or>
          (\<exists>m \<in> fst ` set us. \<exists>rt. map_of rcs m = Some rt \<and>
             ConfigLoader_Load w (cml_ConfigLoader c) (''gs://'' @ bucket @ ''/'' @ m) rt = Inl e)"
      by blast
    have "fst (Load w c force) = Inl e" by (simp add: run(2) e)
    then show ?thesis using d unfolding keys by blast
  qed
  have n_seqs: "n \<in> fst ` set seqs"
    using assms(4) Load_updated_keys_subset by blast
  have untouched: "map_of (snd (Load w c force)) n = map_of store n" if "skipped rcs n"
    using Load_reload_untouched [of n us rcs w "cml_ConfigLoader c" bucket store1] that
      Load_stored_kept [OF n_seqs, of store]
    by (simp add: run(1) store1_def)
  have ok: "fst (Load w c force) = Inr (ConfigStore_ConfigResp w (snd (Load w c force)))"
    if "\<forall>m \<in> fst ` set updated. loadable w (cml_ConfigLoader c) bucket rcs m"
    using Load_reload_ok [of us w "cml_ConfigLoader c" bucket rcs store1] that
    by (simp add: run(2) keys)
  show ?thesis
    using missing untouched ok unfolding updated_def store_def by blast
qed

lemma Load_in_sync:
  assumes "\<forall>n \<in> fst ` set store. map_of seqs n = Some (ConfigStore_Seq store n)"
    "fst ` set seqs \<subseteq> fst ` set store"
  shows "Load_updated store seqs = []" "Load_deleted store seqs = []"
proof -
  have "ConfigStore_Seq store n = t" if "map_of seqs n = Some t" for n t
  proof -
    have "(n, t) \<in> set seqs" using that by (rule map_of_SomeD)
    then have "n \<in> fst ` set store" using assms(2) by force
    then show ?thesis using assms(1) that by auto
  qed
  then show "Load_updated store seqs = []"
    by (simp add: Load_updated_Nil)
  have "n \<in> fst ` set seqs" if "n \<in> fst ` set store" for n
  proof -
    have "map_of seqs n = Some (ConfigStore_Seq store n)" using assms(1) that by auto
    then have "(n, ConfigStore_Seq store n) \<in> set seqs" by (rule map_of_SomeD)
    then show ?thesis by force
  qed
  then show "Load_deleted store seqs = []"
    by (auto simp: Load_deleted_Nil)
qed

lemma Load_result_cases:
  assumes "cm_Seqs (cml_ConfigMap c) = Inr seqs" "\<not> isl (fst (Load w c False))"
  obtains bucket rcs where
    "cm_Bucket (cml_ConfigMap c) = Inr bucket" "cm_RuntimeConfigs (cml_ConfigMap c) = Inr rcs"
    "Load_updated (cml_ConfigStore c) seqs \<noteq> [] \<or> Load_deleted (cml_ConfigStore c) seqs \<noteq> []"
  using assms by (auto simp: Load_def Let_def split: sum.splits if_splits)

lemma Load_converged:
  assumes seqs: "cm_Seqs (cml_ConfigMap c) = Inr seqs"
    and rcs: "cm_RuntimeConfigs (cml_ConfigMap c) = Inr rcs"
    and ok: "\<not> isl (fst (Load w c False))"
    and noskip: "\<forall>n \<in> fst ` set (Load_updated (cml_ConfigStore c) seqs). \<not> skipped rcs n"
  shows "Load_updated (snd (Load w c False)) seqs = []"
    "Load_deleted (snd (Load w c False)) seqs = []"
proof -
  define store where "store = cml_ConfigStore c"
  define updated where "updated = Load_updated store seqs"
  define us where "us = range_order (w_range w) updated"
  define store1 where "store1 = fold ConfigStore_Delete (Load_deleted store seqs) store"
  from Load_result_cases [OF seqs ok] rcs obtain bucket where
    bucket: "cm_Bucket (cml_ConfigMap c) = Inr bucket" and
    ne: "Load_updated (cml_ConfigStore c) seqs \<noteq> [] \<or> Load_deleted (cml_ConfigStore c) seqs \<noteq> [] \<or> False"
    by auto
  define store2 where "store2 = snd (Load_reload w (cml_ConfigLoader c) bucket rcs us store1)"
  have run:
    "snd (Load w c False) = store2"
    "fst (Load w c False) =
       (case fst (Load_reload w (cml_ConfigLoader c) bucket rcs us store1) of
          Some err \<Rightarrow> Inl err
        | None \<Rightarrow> Inr (ConfigStore_ConfigResp w (snd (Load w c False))))"
    using Load_run_snd [OF seqs bucket rcs ne, of w]
    unfolding store_def updated_def us_def store1_def store2_def by simp_all
  have finished: "fst (Load_reload w (cml_ConfigLoader c) bucket rcs us store1) = None"
    using ok run(2) by (auto split: option.splits)
  have us_set: "set us = set updated"
    by (simp add: us_def range_order_set)
  have us_dist: "distinct (map fst us)"
    by (simp add: us_def range_order_distinct_keys updated_def Load_updated_distinct)
  have synced: "ConfigStore_Seq store2 n = t" if some: "map_of seqs n = Some t" for n t
  proof (cases "ConfigStore_Seq store n = t")
    case True
    have "(n, t) \<in> set seqs" using some by (rule map_of_SomeD)
    then have n_seqs: "n \<in> fst ` set seqs" by force
    have "n \<notin> fst ` set us"
      using True some by (auto simp: us_set updated_def Load_updated_mem)
    then have "map_of store2 n = map_of store1 n"
      unfolding store2_def by (simp add: Load_reload_untouched)
    also have "\<dots> = map_of store n"
      unfolding store1_def by (rule Load_stored_kept [OF n_seqs])
    finally have "ConfigStore_Seq store2 n = ConfigStore_Seq store n"
      by (rule ConfigStore_Seq_cong)
    then show ?thesis using True by simp
  next
    case False
    then have mem: "(n, t) \<in> set us"
      using some by (simp add: us_set updated_def Load_updated_mem)
    then have "n \<in> fst ` set (Load_updated (cml_ConfigStore c) seqs)"
      unfolding us_set updated_def store_def by force
    then have "\<not> skipped rcs n" using noskip by blast
    from Load_reload_synced [OF finished us_dist mem this]
    show ?thesis by (simp add: store2_def)
  qed
  then show "Load_updated (snd (Load w c False)) seqs = []"
    by (simp add: run(1) Load_updated_Nil)
  have "fst ` set store2 \<subseteq> fst ` set store1 \<union> fst ` set us"
    unfolding store2_def by (rule Load_reload_keys)
  moreover have "fst ` set store1 \<subseteq> fst ` set seqs"
    by (auto simp: store1_def fold_Delete_keys Load_deleted_set)
  moreover have "fst ` set us \<subseteq> fst ` set seqs"
    using Load_updated_keys_subset [of store seqs] by (simp add: us_set updated_def)
  ultimately have "fst ` set store2 \<subseteq> fst ` set seqs"
    by blast
  then show "Load_deleted (snd (Load w c False)) seqs = []"
    by (simp add: run(1) Load_deleted_Nil)
qed

text \<open>
  C2, amended. When every stored name is fetched with the stored token and no fetched
  name is new, \<open>Load\<close> without force returns \<open>ErrNoUpdate\<close> and leaves the store as it
  is. A second \<open>Load\<close> without force on the same source returns \<open>ErrNoUpdate\<close> with the
  store unchanged when the first one returned a response and skipped no marked runtime
  for an empty service address.
\<close>

theorem Load_no_update:
  assumes "cm_Seqs (cml_ConfigMap c) = Inr seqs"
  shows "((\<forall>n \<in> fst ` set (cml_ConfigStore c).
             map_of seqs n = Some (ConfigStore_Seq (cml_ConfigStore c) n)) \<and>
          fst ` set seqs \<subseteq> fst ` set (cml_ConfigStore c) \<longrightarrow>
          Load w c False = (Inl ErrNoUpdate, cml_ConfigStore c)) \<and>
         (\<not> isl (fst (Load w c False)) \<and>
          (\<forall>rcs. cm_RuntimeConfigs (cml_ConfigMap c) = Inr rcs \<longrightarrow>
             (\<forall>n \<in> fst ` set (Load_updated (cml_ConfigStore c) seqs). \<not> skipped rcs n)) \<longrightarrow>
          Load w' (c\<lparr>cml_ConfigStore := snd (Load w c False)\<rparr>) False =
            (Inl ErrNoUpdate, snd (Load w c False)))"
proof (intro conjI impI)
  assume "(\<forall>n \<in> fst ` set (cml_ConfigStore c).
             map_of seqs n = Some (ConfigStore_Seq (cml_ConfigStore c) n)) \<and>
          fst ` set seqs \<subseteq> fst ` set (cml_ConfigStore c)"
  then have "Load_updated (cml_ConfigStore c) seqs = []" "Load_deleted (cml_ConfigStore c) seqs = []"
    using Load_in_sync [of "cml_ConfigStore c" seqs] by blast+
  then show "Load w c False = (Inl ErrNoUpdate, cml_ConfigStore c)"
    by (rule Load_unchanged [OF assms])
next
  assume a: "\<not> isl (fst (Load w c False)) \<and>
          (\<forall>rcs. cm_RuntimeConfigs (cml_ConfigMap c) = Inr rcs \<longrightarrow>
             (\<forall>n \<in> fst ` set (Load_updated (cml_ConfigStore c) seqs). \<not> skipped rcs n))"
  then have ok: "\<not> isl (fst (Load w c False))" by simp
  from Load_result_cases [OF assms ok] obtain rcs where
    rcs: "cm_RuntimeConfigs (cml_ConfigMap c) = Inr rcs" by blast
  then have noskip: "\<forall>n \<in> fst ` set (Load_updated (cml_ConfigStore c) seqs). \<not> skipped rcs n"
    using a by blast
  define c' where "c' = c\<lparr>cml_ConfigStore := snd (Load w c False)\<rparr>"
  have "cm_Seqs (cml_ConfigMap c') = Inr seqs" "cml_ConfigStore c' = snd (Load w c False)"
    using assms by (simp_all add: c'_def)
  then have "Load w' c' False = (Inl ErrNoUpdate, snd (Load w c False))"
    using Load_unchanged [of c' seqs w'] Load_converged [OF assms rcs ok noskip] by simp
  then show "Load w' (c\<lparr>cml_ConfigStore := snd (Load w c False)\<rparr>) False =
            (Inl ErrNoUpdate, snd (Load w c False))"
    by (simp add: c'_def)
qed

section \<open>Sequence tokens read from the bucket\<close>

lemma Seqs_loop_ok:
  "\<forall>r \<in> set rs. read_seq client bucket (rc_Name r) = Inl ErrObjectNotExist \<or>
       \<not> isl (read_seq client bucket (rc_Name r)) \<Longrightarrow>
   \<exists>m'. Seqs_loop client bucket rs m = Inr m' \<and>
     (\<forall>n. map_of m' n =
        (case read_seq client bucket n of
           Inr buf \<Rightarrow> if n \<in> rc_Name ` set rs then Some buf else map_of m n
         | Inl _ \<Rightarrow> map_of m n))"
proof (induction rs arbitrary: m)
  case Nil
  show ?case by (simp split: sum.splits)
next
  case (Cons r rs)
  have rest: "\<forall>r \<in> set rs. read_seq client bucket (rc_Name r) = Inl ErrObjectNotExist \<or>
       \<not> isl (read_seq client bucket (rc_Name r))"
    using Cons.prems by simp
  show ?case
  proof (cases "read_seq client bucket (rc_Name r)")
    case (Inl err)
    then have err: "err = ErrObjectNotExist" using Cons.prems by auto
    from Cons.IH [OF rest, of m] obtain m' where
      m': "Seqs_loop client bucket rs m = Inr m'"
      "\<forall>n. map_of m' n =
        (case read_seq client bucket n of
           Inr buf \<Rightarrow> if n \<in> rc_Name ` set rs then Some buf else map_of m n
         | Inl _ \<Rightarrow> map_of m n)" by blast
    have "Seqs_loop client bucket (r # rs) m = Inr m'"
      using Inl err m'(1) by (simp add: read_seq_def)
    moreover have "map_of m' n =
        (case read_seq client bucket n of
           Inr buf \<Rightarrow> if n \<in> rc_Name ` set (r # rs) then Some buf else map_of m n
         | Inl _ \<Rightarrow> map_of m n)" for n
      using m'(2) Inl by (auto split: sum.splits)
    ultimately show ?thesis by blast
  next
    case (Inr buf)
    define m1 where "m1 = AList.update (rc_Name r) buf m"
    from Cons.IH [OF rest, of m1] obtain m' where
      m': "Seqs_loop client bucket rs m1 = Inr m'"
      "\<forall>n. map_of m' n =
        (case read_seq client bucket n of
           Inr buf \<Rightarrow> if n \<in> rc_Name ` set rs then Some buf else map_of m1 n
         | Inl _ \<Rightarrow> map_of m1 n)" by blast
    have "Seqs_loop client bucket (r # rs) m = Inr m'"
      using Inr m'(1) by (simp add: read_seq_def m1_def)
    moreover have "map_of m' n =
        (case read_seq client bucket n of
           Inr buf \<Rightarrow> if n \<in> rc_Name ` set (r # rs) then Some buf else map_of m n
         | Inl _ \<Rightarrow> map_of m n)" for n
      using m'(2) Inr by (auto simp: m1_def update_conv' split: sum.splits)
    ultimately show ?thesis by blast
  qed
qed

lemma Seqs_loop_fails:
  "r \<in> set rs \<Longrightarrow> read_seq client bucket (rc_Name r) = Inl e \<Longrightarrow> e \<noteq> ErrObjectNotExist \<Longrightarrow>
   \<exists>e'. Seqs_loop client bucket rs m = Inl e' \<and> e' \<noteq> ErrObjectNotExist \<and>
     (\<exists>r' \<in> set rs. read_seq client bucket (rc_Name r') = Inl e')"
proof (induction rs arbitrary: m)
  case Nil
  then show ?case by simp
next
  case (Cons x rs)
  show ?case
  proof (cases "read_seq client bucket (rc_Name x)")
    case (Inl err)
    show ?thesis
    proof (cases "err = ErrObjectNotExist")
      case True
      then have "r \<in> set rs" using Cons.prems Inl by auto
      from Cons.IH [OF this Cons.prems(2,3), of m] show ?thesis
        using Inl True by (auto simp: read_seq_def)
    next
      case False
      then show ?thesis using Inl by (auto simp: read_seq_def)
    qed
  next
    case (Inr buf)
    then have "r \<in> set rs" using Cons.prems by auto
    from Cons.IH [OF this Cons.prems(2,3), of "AList.update (rc_Name x) buf m"] show ?thesis
      using Inr by (auto simp: read_seq_def)
  qed
qed

lemma Seqs_loop_omits:
  assumes "Seqs_loop client bucket rs [] = Inr seqs"
    "read_seq client bucket name = Inl ErrObjectNotExist"
  shows "name \<notin> fst ` set seqs"
proof -
  have ok: "\<forall>r \<in> set rs. read_seq client bucket (rc_Name r) = Inl ErrObjectNotExist \<or>
       \<not> isl (read_seq client bucket (rc_Name r))"
  proof (rule ccontr)
    assume "\<not> ?thesis"
    then obtain r e where "r \<in> set rs" "read_seq client bucket (rc_Name r) = Inl e"
      "e \<noteq> ErrObjectNotExist"
      by (metis isl_def)
    from Seqs_loop_fails [OF this, of "[]"] show False using assms(1) by auto
  qed
  from Seqs_loop_ok [OF ok, of "[]"] assms have "map_of seqs name = None"
    by auto
  then show ?thesis by (simp add: map_of_eq_None_iff)
qed

section \<open>Evaluation on the example data\<close>

lemmas ex_defs = ex_ConfigMap_def ex_loader_def ex_store_def ex_rc_def ex_world_def ex_client_def
  ex_bucket_def ex_attrs_def ex_Unmarshal_def ex_sel_def ex_platform_def ex_cmb_def
  ex_client_empty_seq_def
  ex_rt_only_def ex_ghost_def ex_synced_def ex_noseq_store_def ex_bucket_loader_def

lemmas eval_defs = Load_def Load_updated_def Load_deleted_def ConfigStore_List_def ConfigStore_Seq_def
  ConfigStore_Set_def ConfigStore_Delete_def ConfigStore_ConfigResp_def range_order_def next_choice_def
  ConfigLoader_Load_def loadConfigs_def run_workers_def finish_def worker_def worker_Config_def
  loadDescriptor_def storageReadAll_def checkSelector_def checkPrebuilt_def splitGCSPath_def
  SplitN2_def HasPrefix_def Base_def Dir_def Split_def Clean_def Join_def Let_def upt_rec
  ConfigMapBucket_ConfigMap_def ConfigMapBucket_Seqs_def ConfigMapBucket_Bucket_def
  ConfigMapBucket_RuntimeConfigs_def configMap_def

lemma ex_Load:
  "Load ex_world (ex_loader ex_store) False =
     (Inr \<lparr>resp_VersionId = ''v1'',
           resp_Configs =
             [worker_Config ex_rc ex_platform
                \<lparr>attrs_Name = ''rt/p/descriptors/h1'', attrs_Updated = 1\<rparr>
                \<lparr>cd_Selector = Some (ex_sel ''gcc''), cd_Setup = Some \<lparr>setup_PathType = POSIX\<rparr>\<rparr>,
              worker_Config ex_rc ex_platform
                \<lparr>attrs_Name = ''rt/q/descriptors/h5'', attrs_Updated = 5\<rparr>
                \<lparr>cd_Selector = Some (ex_sel ''gcc''), cd_Setup = Some \<lparr>setup_PathType = POSIX\<rparr>\<rparr>]\<rparr>,
      [(''noaddr'', \<lparr>c_seq = ''2'', c_configs = []\<rparr>),
       (''rt'', \<lparr>c_seq = ''7'', c_configs =
             [worker_Config ex_rc ex_platform
                \<lparr>attrs_Name = ''rt/p/descriptors/h1'', attrs_Updated = 1\<rparr>
                \<lparr>cd_Selector = Some (ex_sel ''gcc''), cd_Setup = Some \<lparr>setup_PathType = POSIX\<rparr>\<rparr>,
              worker_Config ex_rc ex_platform
                \<lparr>attrs_Name = ''rt/q/descriptors/h5'', attrs_Updated = 5\<rparr>
                \<lparr>cd_Selector = Some (ex_sel ''gcc''), cd_Setup = Some \<lparr>setup_PathType = POSIX\<rparr>\<rparr>]\<rparr>)])"
  by (simp add: ex_defs eval_defs)

lemma ex_Seqs: "ConfigMapBucket_Seqs ex_world ex_cmb = Inr [(''rt'', ''7'')]"
  by (simp add: ex_defs eval_defs)

lemma ex_Seqs_empty:
  "ConfigMapBucket_Seqs ex_world (ex_cmb\<lparr>cmb_StorageClient := ex_client_empty_seq\<rparr>) = Inr [(''rt'', [])]"
  by (simp add: ex_defs eval_defs)

lemma ex_RuntimeConfigs:
  "ConfigMapBucket_RuntimeConfigs ex_world ex_cmb = Inr [(''rt'', ex_rc), (''noseq'', ex_rc\<lparr>rc_Name := ''noseq''\<rparr>)]"
  by (simp add: ex_defs eval_defs)

text \<open>
  The diff is exact but for one case: a fetched name is marked for reload exactly when
  its token is not what \<open>Seq\<close> returns (\<open>Load_updated_mem\<close>), the deleted names are the
  stored names that were not fetched (\<open>Load_deleted_set\<close>), and a new name is marked when
  its token is not empty.
\<close>

lemma Load_updated_new:
  assumes "map_of seqs n = Some t" "n \<notin> fst ` set store" "t \<noteq> []"
  shows "(n, t) \<in> set (Load_updated store seqs)"
proof -
  have "map_of store n = None"
    using assms(2) by (simp add: map_of_eq_None_iff)
  then have "ConfigStore_Seq store n = []"
    by (simp add: ConfigStore_Seq_def)
  then show ?thesis
    using assms(1,3) by (simp add: Load_updated_mem)
qed


text \<open>
  C1. The runtime \<open>rt\<close> is in the config map, its \<open>seq\<close> object exists and is empty,
  and the store does not know it. \<open>Seqs\<close> returns the empty token for it, \<open>Seq\<close>
  returns the empty string for the unknown name, so the new runtime is not marked for
  reload and \<open>Load\<close> returns \<open>ErrNoUpdate\<close>.
\<close>

theorem Load_new_runtime_empty_token:
  "ConfigMapBucket_Seqs ex_world (ex_cmb\<lparr>cmb_StorageClient := ex_client_empty_seq\<rparr>) =
     Inr [(''rt'', [])] \<and>
   map_of [] ''rt'' = (None :: configs option) \<and>
   Load_updated [] [(''rt'', [])] = [] \<and>
   Load ex_world
     \<lparr>cml_ConfigMap =
        ConfigMapBucket_ConfigMap ex_world (ex_cmb\<lparr>cmb_StorageClient := ex_client_empty_seq\<rparr>),
      cml_ConfigLoader = \<lparr>cl_StorageClient = ex_client_empty_seq, cl_EnableParallel = False\<rparr>,
      cml_ConfigStore = []\<rparr> False = (Inl ErrNoUpdate, [])"
  by (simp add: ex_defs eval_defs)

text \<open>
  For an object name of the form \<open>runtime/prebuilt/descriptors/hash\<close>, \<open>checkPrebuilt\<close>
  judges the prebuilt name, unless that name itself begins with \<open>descriptors\<close>.
\<close>

lemma Index_skip:
  "CHR ''/'' \<notin> set xs \<Longrightarrow>
   Index (xs @ ys) (CHR ''/'' # sub) = map_option (\<lambda>i. length xs + i) (Index ys (CHR ''/'' # sub))"
proof (induction xs)
  case Nil
  show ?case by (simp add: option.map_ident)
next
  case (Cons x xs)
  then have "\<not> HasPrefix (x # xs @ ys) (CHR ''/'' # sub)"
    by (auto simp: HasPrefix_def)
  then show ?case
    using Cons by (simp add: option.map_comp comp_def)
qed

lemma HasPrefix_append_slash:
  assumes "CHR ''/'' \<notin> set p" "CHR ''/'' \<notin> set xs"
  shows "HasPrefix (xs @ CHR ''/'' # ys) p = HasPrefix xs p"
proof (cases "length p \<le> length xs")
  case True
  then show ?thesis by (simp add: HasPrefix_def)
next
  case False
  then have len: "length xs < length p" by simp
  have "take (length p) (xs @ CHR ''/'' # ys) \<noteq> p"
  proof
    assume eq: "take (length p) (xs @ CHR ''/'' # ys) = p"
    have "p ! length xs = take (length p) (xs @ CHR ''/'' # ys) ! length xs"
      using eq by simp
    also have "\<dots> = CHR ''/''"
      using len by (simp add: nth_append)
    finally have "CHR ''/'' \<in> set p"
      using len by (metis nth_mem)
    then show False using assms(1) by simp
  qed
  then show ?thesis using False by (simp add: HasPrefix_def)
qed

lemma LastIndexByte_append:
  "c \<notin> set ys \<Longrightarrow> LastIndexByte (xs @ c # ys) c = Some (length xs)"
proof (induction xs)
  case Nil
  have "LastIndexByte ys c = None" using Nil by (induction ys) auto
  then show ?case by simp
next
  case (Cons x xs)
  then show ?case by simp
qed

lemma Base_last_element:
  assumes "CHR ''/'' \<notin> set p" "p \<noteq> []"
  shows "Base (r @ CHR ''/'' # p) = p"
proof -
  have "last p \<noteq> CHR ''/''" using assms by (metis last_in_set)
  then have "dropWhile (\<lambda>x. x = CHR ''/'') (rev (r @ CHR ''/'' # p)) = rev (r @ CHR ''/'' # p)"
    using assms(2) by (cases p rule: rev_cases) auto
  then have strip: "rev (dropWhile (\<lambda>x. x = CHR ''/'') (rev (r @ CHR ''/'' # p))) = r @ CHR ''/'' # p"
    by simp
  show ?thesis
    unfolding Base_def strip Let_def
    using assms by (simp add: LastIndexByte_append)
qed

lemma checkPrebuilt_prebuilt_dir:
  assumes "CHR ''/'' \<notin> set runtime" "CHR ''/'' \<notin> set prebuilt" "prebuilt \<noteq> []"
    "\<not> HasPrefix prebuilt ''descriptors''"
  shows "checkPrebuilt rc (runtime @ ''/'' @ prebuilt @ ''/descriptors/'' @ hash) =
     (case first_prefix prebuilt (rc_DisallowedPrebuilts rc) of
        Some prefix \<Rightarrow>
          Some (ErrDisallowedPrebuilt (runtime @ ''/'' @ prebuilt @ ''/descriptors/'' @ hash) prefix)
      | None \<Rightarrow>
          if rc_AllowedPrebuilts rc = [] then None
          else if first_prefix prebuilt (rc_AllowedPrebuilts rc) = None
            then Some (ErrNotAllowedPrebuilt (runtime @ ''/'' @ prebuilt @ ''/descriptors/'' @ hash))
          else None)"
proof -
  define name where "name = runtime @ ''/'' @ prebuilt @ ''/descriptors/'' @ hash"
  have no: "\<not> HasPrefix (CHR ''/'' # prebuilt @ ''/descriptors/'' @ hash) ''/descriptors''"
  proof -
    have "HasPrefix (CHR ''/'' # prebuilt @ ''/descriptors/'' @ hash) ''/descriptors'' =
        HasPrefix (prebuilt @ CHR ''/'' # (''descriptors/'' @ hash)) ''descriptors''"
      by (auto simp: HasPrefix_def)
    also have "\<dots> = HasPrefix prebuilt ''descriptors''"
      using assms(2) by (subst HasPrefix_append_slash) simp_all
    finally show ?thesis using assms(4) by simp
  qed
  have "Index (''/descriptors/'' @ hash) ''/descriptors'' = Some 0"
    by (simp add: HasPrefix_def)
  then have "Index (prebuilt @ ''/descriptors/'' @ hash) ''/descriptors'' = Some (length prebuilt)"
    using Index_skip [OF assms(2), of "''/descriptors/'' @ hash" "''descriptors''"] by simp
  then have "Index (CHR ''/'' # prebuilt @ ''/descriptors/'' @ hash) ''/descriptors'' =
      Some (Suc (length prebuilt))"
    using no by simp
  then have idx: "Index name ''/descriptors'' = Some (Suc (length runtime + length prebuilt))"
    using Index_skip [OF assms(1), of "CHR ''/'' # prebuilt @ ''/descriptors/'' @ hash" "''descriptors''"]
    by (simp add: name_def)
  have "take (Suc (length runtime + length prebuilt)) name = runtime @ CHR ''/'' # prebuilt"
    by (simp add: name_def)
  then have base: "Base (take (Suc (length runtime + length prebuilt)) name) = prebuilt"
    using Base_last_element [OF assms(2,3)] by simp
  show ?thesis
    unfolding name_def [symmetric] checkPrebuilt_def idx option.case Let_def base
    by simp
qed

lemma list_objects_filter:
  "list_objects rc (map Inr xs) attrsList =
     Inr (attrsList @
       filter (\<lambda>attrs. checkPrebuilt rc (attrs_Name attrs) = None \<and>
                 Base (Dir (attrs_Name attrs)) = ''descriptors'') xs)"
  by (induction xs arbitrary: attrsList) auto

text \<open>
  C4. The prebuilt name is taken before the first occurrence of \<open>/descriptors\<close> in the
  object name. For the object \<open>rt/descriptors_x/descriptors/h\<close> the parent directory is
  \<open>descriptors\<close> and the directory two levels above the object is \<open>descriptors_x\<close>,
  which the deny list names, but the check sees \<open>rt\<close> and the object passes.
\<close>

theorem list_objects_first_descriptors_dir:
  "Base (Dir ''rt/descriptors_x/descriptors/h'') = ''descriptors'' \<and>
   Base (Dir (Dir ''rt/descriptors_x/descriptors/h'')) = ''descriptors_x'' \<and>
   HasPrefix ''descriptors_x'' ''descriptors_x'' \<and>
   checkPrebuilt (ex_rc\<lparr>rc_DisallowedPrebuilts := [''descriptors_x'']\<rparr>)
     ''rt/descriptors_x/descriptors/h'' = None \<and>
   list_objects (ex_rc\<lparr>rc_DisallowedPrebuilts := [''descriptors_x'']\<rparr>)
     [Inr \<lparr>attrs_Name = ''rt/descriptors_x/descriptors/h'', attrs_Updated = 1\<rparr>] [] =
     Inr [\<lparr>attrs_Name = ''rt/descriptors_x/descriptors/h'', attrs_Updated = 1\<rparr>]"
  by (simp add: ex_defs eval_defs)

section \<open>The selector deny list\<close>

lemma checkSelector_loop_iff:
  "(checkSelector_loop ss sel \<noteq> None) =
     (\<exists>s \<in> set ss.
        (sel_Name s \<noteq> [] \<and> sel_Name s = sel_Name sel) \<or>
        (sel_Version s \<noteq> [] \<and> sel_Version s = sel_Version sel) \<or>
        (sel_Target s \<noteq> [] \<and> sel_Target s = sel_Target sel) \<or>
        (sel_BinaryHash s \<noteq> [] \<and> sel_BinaryHash s = sel_BinaryHash sel))"
  by (induction ss) auto

text \<open>
  C8, amended. A selector is denied exactly when some entry of the deny list has a
  non-empty name, version, target or binary hash equal to the selector's field of the
  same kind; one such field is enough, and empty fields of an entry match nothing.
\<close>

theorem checkSelector_denied_iff:
  "(checkSelector rc (Some sel) \<noteq> None) =
     (\<exists>s \<in> set (rc_DisallowedCommands rc).
        (sel_Name s \<noteq> [] \<and> sel_Name s = sel_Name sel) \<or>
        (sel_Version s \<noteq> [] \<and> sel_Version s = sel_Version sel) \<or>
        (sel_Target s \<noteq> [] \<and> sel_Target s = sel_Target sel) \<or>
        (sel_BinaryHash s \<noteq> [] \<and> sel_BinaryHash s = sel_BinaryHash sel))"
  using checkSelector_loop_iff [of "rc_DisallowedCommands rc" sel]
  by (simp add: checkSelector_def)

theorem checkSelector_denied_iff_witness:
  "checkSelector ex_rc (Some (ex_sel ''clang'')) \<noteq> None \<and>
   checkSelector ex_rc (Some (ex_sel ''gcc'')) = None"
  using checkSelector_denied_iff [of ex_rc "ex_sel ''clang''"]
    checkSelector_denied_iff [of ex_rc "ex_sel ''gcc''"]
  by (simp add: ex_rc_def ex_sel_def)

theorem checkSelector_tuple_equality_counterexample:
  "checkSelector ex_rc (Some (ex_sel ''clang'')) =
     Some (ErrDisallowedByName (ex_sel ''clang'') ''clang'') \<and>
   rc_DisallowedCommands ex_rc =
     [\<lparr>sel_Name = ''clang'', sel_Version = [], sel_Target = [], sel_BinaryHash = []\<rparr>] \<and>
   \<lparr>sel_Name = ''clang'', sel_Version = [], sel_Target = [], sel_BinaryHash = []\<rparr> \<noteq> ex_sel ''clang'' \<and>
   checkSelector
     (ex_rc\<lparr>rc_DisallowedCommands :=
        [\<lparr>sel_Name = [], sel_Version = [], sel_Target = [], sel_BinaryHash = []\<rparr>]\<rparr>)
     (Some \<lparr>sel_Name = [], sel_Version = [], sel_Target = [], sel_BinaryHash = []\<rparr>) = None"
  by (simp add: checkSelector_def ex_rc_def ex_sel_def)

section \<open>Runtimes without a sequence object\<close>

lemma Load_store_keys:
  assumes "cm_Seqs (cml_ConfigMap c) = Inr seqs"
  shows "fst ` set (snd (Load w c force)) \<subseteq> fst ` set seqs"
proof -
  define store where "store = cml_ConfigStore c"
  define store1 where "store1 = fold ConfigStore_Delete (Load_deleted store seqs) store"
  have s1: "fst ` set store1 \<subseteq> fst ` set seqs"
    by (auto simp: store1_def fold_Delete_keys Load_deleted_set)
  show ?thesis
  proof (cases "Load_updated store seqs = [] \<and> Load_deleted store seqs = [] \<and> \<not> force")
    case True
    then have "snd (Load w c force) = store"
      using assms by (simp add: Load_def store_def)
    then show ?thesis using True by (simp add: Load_deleted_Nil)
  next
    case False
    then have ne: "Load_updated (cml_ConfigStore c) seqs \<noteq> [] \<or>
        Load_deleted (cml_ConfigStore c) seqs \<noteq> [] \<or> force"
      by (auto simp: store_def)
    show ?thesis
    proof (cases "cm_Bucket (cml_ConfigMap c)")
      case (Inl err)
      then have "snd (Load w c force) = store1"
        using assms ne by (auto simp: Load_def Let_def store1_def store_def)
      then show ?thesis using s1 by simp
    next
      case bucket: (Inr bucket)
      show ?thesis
      proof (cases "cm_RuntimeConfigs (cml_ConfigMap c)")
        case (Inl err)
        then have "snd (Load w c force) = store1"
          using assms ne bucket by (auto simp: Load_def Let_def store1_def store_def)
        then show ?thesis using s1 by simp
      next
        case (Inr rcs)
        define us where "us = range_order (w_range w) (Load_updated store seqs)"
        have "snd (Load w c force) = snd (Load_reload w (cml_ConfigLoader c) bucket rcs us store1)"
          using Load_run_snd(1) [OF assms bucket Inr ne, of w]
          by (simp add: us_def store1_def store_def)
        moreover have "fst ` set (snd (Load_reload w (cml_ConfigLoader c) bucket rcs us store1))
            \<subseteq> fst ` set store1 \<union> fst ` set us"
          by (rule Load_reload_keys)
        moreover have "fst ` set us \<subseteq> fst ` set seqs"
          using Load_updated_keys_subset [of store seqs] by (simp add: us_def range_order_set)
        ultimately show ?thesis using s1 by (simp only:) blast
      qed
    qed
  qed
qed

lemma Seqs_loop_ok_Nil:
  assumes "\<forall>r \<in> set rs. read_seq client bucket (rc_Name r) = Inl ErrObjectNotExist \<or>
       \<not> isl (read_seq client bucket (rc_Name r))"
  shows "\<exists>seqs. Seqs_loop client bucket rs [] = Inr seqs \<and>
     (\<forall>n. map_of seqs n =
        (case read_seq client bucket n of
           Inr buf \<Rightarrow> if n \<in> rc_Name ` set rs then Some buf else None
         | Inl _ \<Rightarrow> None))"
proof -
  from Seqs_loop_ok [OF assms, of "[]"] obtain m' where
    m': "Seqs_loop client bucket rs [] = Inr m'"
    "\<forall>n. map_of m' n =
        (case read_seq client bucket n of
           Inr buf \<Rightarrow> if n \<in> rc_Name ` set rs then Some buf else map_of [] n
         | Inl _ \<Rightarrow> map_of [] n)" by blast
  have "map_of m' n =
        (case read_seq client bucket n of
           Inr buf \<Rightarrow> if n \<in> rc_Name ` set rs then Some buf else None
         | Inl _ \<Rightarrow> None)" for n
    using m'(2) by (simp split: sum.splits)
  then show ?thesis using m'(1) by blast
qed

text \<open>
  C10. With the bucket of the URI and the config map at hand: when every runtime's
  \<open>seq\<close> object is read or does not exist, \<open>Seqs\<close> succeeds and maps exactly the
  runtimes whose object exists to its contents; any other read error fails \<open>Seqs\<close> with
  such an error; and a listed runtime without \<open>seq\<close> object is not in the fetched map,
  is among the names \<open>Load\<close> deletes when the store has it, and is not in the store
  after \<open>Load\<close>.
\<close>

theorem Seqs_omits_missing_seq:
  assumes "splitGCSPath (cmb_URI b) = Inr (bucket, rest)" "configMap w b = Inr cm"
  shows
    "((\<forall>r \<in> set (cmp_Runtimes cm).
         read_seq (cmb_StorageClient b) bucket (rc_Name r) = Inl ErrObjectNotExist \<or>
         \<not> isl (read_seq (cmb_StorageClient b) bucket (rc_Name r))) \<longrightarrow>
      (\<exists>seqs. ConfigMapBucket_Seqs w b = Inr seqs \<and>
         (\<forall>n. map_of seqs n =
            (case read_seq (cmb_StorageClient b) bucket n of
               Inr buf \<Rightarrow> if n \<in> rc_Name ` set (cmp_Runtimes cm) then Some buf else None
             | Inl _ \<Rightarrow> None)))) \<and>
     (\<forall>r \<in> set (cmp_Runtimes cm). \<forall>e.
         read_seq (cmb_StorageClient b) bucket (rc_Name r) = Inl e \<and> e \<noteq> ErrObjectNotExist \<longrightarrow>
         (\<exists>e'. ConfigMapBucket_Seqs w b = Inl e' \<and> e' \<noteq> ErrObjectNotExist \<and>
            (\<exists>r' \<in> set (cmp_Runtimes cm).
               read_seq (cmb_StorageClient b) bucket (rc_Name r') = Inl e'))) \<and>
     (\<forall>r \<in> set (cmp_Runtimes cm). \<forall>seqs.
         read_seq (cmb_StorageClient b) bucket (rc_Name r) = Inl ErrObjectNotExist \<and>
         ConfigMapBucket_Seqs w b = Inr seqs \<and>
         cml_ConfigMap c = ConfigMapBucket_ConfigMap w b \<longrightarrow>
         rc_Name r \<notin> fst ` set seqs \<and>
         (rc_Name r \<in> fst ` set (cml_ConfigStore c) \<longrightarrow>
            rc_Name r \<in> set (Load_deleted (cml_ConfigStore c) seqs)) \<and>
         rc_Name r \<notin> fst ` set (snd (Load w' c force)))"
proof -
  have Seqs: "ConfigMapBucket_Seqs w b = Seqs_loop (cmb_StorageClient b) bucket (cmp_Runtimes cm) []"
    using assms by (simp add: ConfigMapBucket_Seqs_def)
  have p1: "\<exists>seqs. ConfigMapBucket_Seqs w b = Inr seqs \<and>
         (\<forall>n. map_of seqs n =
            (case read_seq (cmb_StorageClient b) bucket n of
               Inr buf \<Rightarrow> if n \<in> rc_Name ` set (cmp_Runtimes cm) then Some buf else None
             | Inl _ \<Rightarrow> None))"
    if "\<forall>r \<in> set (cmp_Runtimes cm).
         read_seq (cmb_StorageClient b) bucket (rc_Name r) = Inl ErrObjectNotExist \<or>
         \<not> isl (read_seq (cmb_StorageClient b) bucket (rc_Name r))"
    using Seqs_loop_ok_Nil [OF that] by (simp add: Seqs)
  have p2: "\<exists>e'. ConfigMapBucket_Seqs w b = Inl e' \<and> e' \<noteq> ErrObjectNotExist \<and>
            (\<exists>r' \<in> set (cmp_Runtimes cm).
               read_seq (cmb_StorageClient b) bucket (rc_Name r') = Inl e')"
    if "r \<in> set (cmp_Runtimes cm)"
      "read_seq (cmb_StorageClient b) bucket (rc_Name r) = Inl e \<and> e \<noteq> ErrObjectNotExist" for r e
    using Seqs_loop_fails [of r "cmp_Runtimes cm" "cmb_StorageClient b" bucket e "[]"] that
    by (simp add: Seqs)
  have p3: "rc_Name r \<notin> fst ` set seqs \<and>
         (rc_Name r \<in> fst ` set (cml_ConfigStore c) \<longrightarrow>
            rc_Name r \<in> set (Load_deleted (cml_ConfigStore c) seqs)) \<and>
         rc_Name r \<notin> fst ` set (snd (Load w' c force))"
    if "read_seq (cmb_StorageClient b) bucket (rc_Name r) = Inl ErrObjectNotExist \<and>
         ConfigMapBucket_Seqs w b = Inr seqs \<and>
         cml_ConfigMap c = ConfigMapBucket_ConfigMap w b" for r seqs
  proof -
    have absent: "rc_Name r \<notin> fst ` set seqs"
      using Seqs_loop_omits [of "cmb_StorageClient b" bucket "cmp_Runtimes cm" seqs "rc_Name r"] that
      by (simp add: Seqs)
    have "cm_Seqs (cml_ConfigMap c) = Inr seqs"
      using that by (simp add: ConfigMapBucket_ConfigMap_def)
    from Load_store_keys [OF this, of w' force] absent
    have "rc_Name r \<notin> fst ` set (snd (Load w' c force))" by blast
    then show ?thesis using absent by (simp add: Load_deleted_set)
  qed
  show ?thesis
    using p1 p2 p3 by blast
qed

section \<open>Witnesses of the loader's theorems\<close>

theorem Load_twice_counterexample:
  "\<not> isl (fst (Load ex_world (ex_loader ex_store) False)) \<and>
   map (\<lambda>(name, v). (name, c_seq v)) (snd (Load ex_world (ex_loader ex_store) False)) =
     [(''noaddr'', ''2''), (''rt'', ''7'')] \<and>
   cm_Seqs (cml_ConfigMap (ex_loader ex_store)) = Inr [(''rt'', ''7''), (''noaddr'', ''3'')] \<and>
   \<not> isl (fst (Load ex_world (ex_loader (snd (Load ex_world (ex_loader ex_store) False))) False)) \<and>
   snd (Load ex_world (ex_loader (snd (Load ex_world (ex_loader ex_store) False))) False) =
     snd (Load ex_world (ex_loader ex_store) False)"
  unfolding ex_Load by (simp add: ex_defs eval_defs)

theorem Load_no_update_witness:
  "Load ex_world (ex_loader ex_synced) False = (Inl ErrNoUpdate, ex_synced) \<and>
   \<not> isl (fst (Load ex_world ex_rt_only False)) \<and>
   map (\<lambda>(name, v). (name, c_seq v)) (snd (Load ex_world ex_rt_only False)) = [(''rt'', ''7'')] \<and>
   Load ex_world (ex_rt_only\<lparr>cml_ConfigStore := snd (Load ex_world ex_rt_only False)\<rparr>) False =
     (Inl ErrNoUpdate, snd (Load ex_world ex_rt_only False))"
proof -
  have s1: "cm_Seqs (cml_ConfigMap (ex_loader ex_synced)) = Inr [(''rt'', ''7''), (''noaddr'', ''3'')]"
    by (simp add: ex_loader_def ex_ConfigMap_def)
  have h1: "(\<forall>n \<in> fst ` set (cml_ConfigStore (ex_loader ex_synced)).
             map_of [(''rt'', ''7''), (''noaddr'', ''3'')] n =
               Some (ConfigStore_Seq (cml_ConfigStore (ex_loader ex_synced)) n)) \<and>
          fst ` set [(''rt'', ''7''), (''noaddr'', ''3'')] \<subseteq>
            fst ` set (cml_ConfigStore (ex_loader ex_synced))"
    by (simp add: ex_loader_def ex_synced_def ConfigStore_Seq_def)
  have s2: "cm_Seqs (cml_ConfigMap ex_rt_only) = Inr [(''rt'', ''7'')]"
    by (simp add: ex_rt_only_def)
  have ld: "Load ex_world ex_rt_only False =
     (Inr \<lparr>resp_VersionId = ''v1'',
           resp_Configs =
             [worker_Config ex_rc ex_platform
                \<lparr>attrs_Name = ''rt/p/descriptors/h1'', attrs_Updated = 1\<rparr>
                \<lparr>cd_Selector = Some (ex_sel ''gcc''), cd_Setup = Some \<lparr>setup_PathType = POSIX\<rparr>\<rparr>,
              worker_Config ex_rc ex_platform
                \<lparr>attrs_Name = ''rt/q/descriptors/h5'', attrs_Updated = 5\<rparr>
                \<lparr>cd_Selector = Some (ex_sel ''gcc''), cd_Setup = Some \<lparr>setup_PathType = POSIX\<rparr>\<rparr>]\<rparr>,
      [(''rt'', \<lparr>c_seq = ''7'', c_configs =
             [worker_Config ex_rc ex_platform
                \<lparr>attrs_Name = ''rt/p/descriptors/h1'', attrs_Updated = 1\<rparr>
                \<lparr>cd_Selector = Some (ex_sel ''gcc''), cd_Setup = Some \<lparr>setup_PathType = POSIX\<rparr>\<rparr>,
              worker_Config ex_rc ex_platform
                \<lparr>attrs_Name = ''rt/q/descriptors/h5'', attrs_Updated = 5\<rparr>
                \<lparr>cd_Selector = Some (ex_sel ''gcc''), cd_Setup = Some \<lparr>setup_PathType = POSIX\<rparr>\<rparr>]\<rparr>)])"
    by (simp add: ex_defs eval_defs)
  have h2: "\<not> isl (fst (Load ex_world ex_rt_only False)) \<and>
          (\<forall>rcs. cm_RuntimeConfigs (cml_ConfigMap ex_rt_only) = Inr rcs \<longrightarrow>
             (\<forall>n \<in> fst ` set (Load_updated (cml_ConfigStore ex_rt_only) [(''rt'', ''7'')]).
                \<not> skipped rcs n))"
    unfolding ld
    by (simp add: ex_defs Load_updated_def ConfigStore_List_def ConfigStore_Seq_def skipped_def)
  have m: "map (\<lambda>(name, v). (name, c_seq v)) (snd (Load ex_world ex_rt_only False)) = [(''rt'', ''7'')]"
    unfolding ld by simp
  from Load_no_update [OF s1, of ex_world ex_world] h1
  have c1: "Load ex_world (ex_loader ex_synced) False = (Inl ErrNoUpdate, cml_ConfigStore (ex_loader ex_synced))"
    by blast
  from Load_no_update [OF s2, of ex_world ex_world] h2
  have c2: "Load ex_world (ex_rt_only\<lparr>cml_ConfigStore := snd (Load ex_world ex_rt_only False)\<rparr>) False =
     (Inl ErrNoUpdate, snd (Load ex_world ex_rt_only False))"
    by blast
  show ?thesis
    using c1 c2 h2 m by (simp add: ex_loader_def)
qed

theorem Load_missing_metadata_or_address_witness:
  "fst (Load ex_world ex_ghost False) = Inl (ErrRuntimeConfigNotFound ''ghost'') \<and>
   skipped [(''rt'', ex_rc), (''noaddr'', ex_rc\<lparr>rc_Name := ''noaddr'', rc_ServiceAddr := []\<rparr>)] ''noaddr'' \<and>
   map_of (snd (Load ex_world (ex_loader ex_store) False)) ''noaddr'' =
     Some \<lparr>c_seq = ''2'', c_configs = []\<rparr> \<and>
   fst (Load ex_world (ex_loader ex_store) False) =
     Inr (ConfigStore_ConfigResp ex_world (snd (Load ex_world (ex_loader ex_store) False)))"
proof -
  let ?rcs = "[(''rt'', ex_rc), (''noaddr'', ex_rc\<lparr>rc_Name := ''noaddr'', rc_ServiceAddr := []\<rparr>)]"
  have g1: "cm_Seqs (cml_ConfigMap ex_ghost) = Inr [(''ghost'', ''1'')]"
    "cm_Bucket (cml_ConfigMap ex_ghost) = Inr ''cfg''"
    "cm_RuntimeConfigs (cml_ConfigMap ex_ghost) = Inr ?rcs"
    by (simp_all add: ex_ghost_def ex_ConfigMap_def ex_loader_def)
  have g2: "fst ` set (Load_updated (cml_ConfigStore ex_ghost) [(''ghost'', ''1'')]) = {''ghost''}"
    by (simp add: ex_ghost_def ex_loader_def ex_store_def Load_updated_def ConfigStore_List_def
        ConfigStore_Seq_def)
  have g3: "map_of ?rcs ''ghost'' = None" by simp
  have g4: "''ghost'' \<in> fst ` set (Load_updated (cml_ConfigStore ex_ghost) [(''ghost'', ''1'')])"
    by (simp add: g2)
  note ga = Load_missing_metadata_or_address [OF g1 g4, of ex_world False, THEN conjunct1, rule_format, OF g3]
  then obtain e where e: "fst (Load ex_world ex_ghost False) = Inl e"
    and d: "(\<exists>m \<in> {''ghost''}. map_of ?rcs m = None \<and> e = ErrRuntimeConfigNotFound m) \<or>
      (\<exists>m \<in> {''ghost''}. \<exists>rt. map_of ?rcs m = Some rt \<and>
         ConfigLoader_Load ex_world (cml_ConfigLoader ex_ghost) (''gs://'' @ ''cfg'' @ ''/'' @ m) rt = Inl e)"
    unfolding g2 by blast
  have "e = ErrRuntimeConfigNotFound ''ghost''"
    using d by simp
  then have a: "fst (Load ex_world ex_ghost False) = Inl (ErrRuntimeConfigNotFound ''ghost'')"
    using e by simp
  have n1: "cm_Seqs (cml_ConfigMap (ex_loader ex_store)) = Inr [(''rt'', ''7''), (''noaddr'', ''3'')]"
    "cm_Bucket (cml_ConfigMap (ex_loader ex_store)) = Inr ''cfg''"
    "cm_RuntimeConfigs (cml_ConfigMap (ex_loader ex_store)) = Inr ?rcs"
    by (simp_all add: ex_ConfigMap_def ex_loader_def)
  have n2: "fst ` set (Load_updated (cml_ConfigStore (ex_loader ex_store))
               [(''rt'', ''7''), (''noaddr'', ''3'')]) = {''rt'', ''noaddr''}"
    by (simp add: ex_loader_def ex_store_def Load_updated_def ConfigStore_List_def
        ConfigStore_Seq_def)
  have n3: "skipped ?rcs ''noaddr''"
    by (simp add: skipped_def)
  have n4: "\<forall>m \<in> {''rt'', ''noaddr''}.
      loadable ex_world (cml_ConfigLoader (ex_loader ex_store)) ''cfg'' ?rcs m"
    by (simp add: loadable_def ex_defs eval_defs)
  have n5: "map_of (cml_ConfigStore (ex_loader ex_store)) ''noaddr'' = Some \<lparr>c_seq = ''2'', c_configs = []\<rparr>"
    by (simp add: ex_loader_def ex_store_def)
  have n6: "''noaddr'' \<in> fst ` set (Load_updated (cml_ConfigStore (ex_loader ex_store))
               [(''rt'', ''7''), (''noaddr'', ''3'')])"
    by (simp add: n2)
  note nb = Load_missing_metadata_or_address [OF n1 n6, of ex_world False, THEN conjunct2, rule_format, OF n3]
  have b1: "map_of (snd (Load ex_world (ex_loader ex_store) False)) ''noaddr'' =
        Some \<lparr>c_seq = ''2'', c_configs = []\<rparr>"
    using nb [THEN conjunct1] n5 by simp
  have b2: "fst (Load ex_world (ex_loader ex_store) False) =
        Inr (ConfigStore_ConfigResp ex_world (snd (Load ex_world (ex_loader ex_store) False)))"
    using n4 by (intro nb [THEN conjunct2, rule_format]) (simp only: n2)
  note b = conjI [OF b1 b2]
  show ?thesis using a b n3 by blast
qed

theorem Seqs_omits_missing_seq_witness:
  "\<not> isl (ConfigMapBucket_Seqs ex_world ex_cmb) \<and>
   ConfigMapBucket_Seqs ex_world ex_cmb = Inr [(''rt'', ''7'')] \<and>
   read_seq ex_client ''cfg'' ''noseq'' = Inl ErrObjectNotExist \<and>
   ''noseq'' \<in> set (Load_deleted ex_noseq_store [(''rt'', ''7'')]) \<and>
   ''noseq'' \<notin> fst ` set (snd (Load ex_world ex_bucket_loader False)) \<and>
   ConfigMapBucket_Seqs ex_world (ex_cmb\<lparr>cmb_URI := ''gs://other/''\<rparr>) =
     Inl (ErrCouldNotFindBucket ''other'')"
proof -
  let ?noseq = "ex_rc\<lparr>rc_Name := ''noseq''\<rparr>"
  have sp: "splitGCSPath (cmb_URI ex_cmb) = Inr (''cfg'', [])"
    by (simp add: ex_cmb_def splitGCSPath_def HasPrefix_def SplitN2_def)
  have cm: "configMap ex_world ex_cmb = Inr \<lparr>cmp_Runtimes = [ex_rc, ?noseq]\<rparr>"
    by (simp add: configMap_def ex_cmb_def)
  have rd: "read_seq ex_client ''cfg'' ''noseq'' = Inl ErrObjectNotExist"
    "read_seq ex_client ''cfg'' ''rt'' = Inr ''7''"
    by (simp_all add: read_seq_def ex_defs eval_defs)
  have seqs: "ConfigMapBucket_Seqs ex_world ex_cmb = Inr [(''rt'', ''7'')]"
    by (rule ex_Seqs)
  have c: "cml_ConfigMap ex_bucket_loader = ConfigMapBucket_ConfigMap ex_world ex_cmb"
    "cml_ConfigStore ex_bucket_loader = ex_noseq_store"
    by (simp_all add: ex_bucket_loader_def)
  have st: "cmb_StorageClient ex_cmb = ex_client" "rc_Name ?noseq = ''noseq''"
    "?noseq \<in> set (cmp_Runtimes \<lparr>cmp_Runtimes = [ex_rc, ?noseq]\<rparr>)"
    "''noseq'' \<in> fst ` set ex_noseq_store"
    by (simp_all add: ex_cmb_def ex_noseq_store_def)
  note T = Seqs_omits_missing_seq [OF sp cm, of ex_bucket_loader ex_world False,
      THEN conjunct2, THEN conjunct2, rule_format, of ?noseq "[(''rt'', ''7'')]"]
  have d0: "rc_Name ?noseq \<notin> fst ` set [(''rt'', ''7'')] \<and>
      (rc_Name ?noseq \<in> fst ` set (cml_ConfigStore ex_bucket_loader) \<longrightarrow>
         rc_Name ?noseq \<in> set (Load_deleted (cml_ConfigStore ex_bucket_loader) [(''rt'', ''7'')])) \<and>
      rc_Name ?noseq \<notin> fst ` set (snd (Load ex_world ex_bucket_loader False))"
    using rd(1) seqs c(1) by (intro T) (simp_all add: st)
  then have d: "''noseq'' \<in> set (Load_deleted ex_noseq_store [(''rt'', ''7'')]) \<and>
      ''noseq'' \<notin> fst ` set (snd (Load ex_world ex_bucket_loader False))"
    using st(4) by (simp add: c(2))
  have rt: "rc_Name ex_rc = ''rt''" by (simp add: ex_rc_def)
  have "\<exists>seqs. ConfigMapBucket_Seqs ex_world ex_cmb = Inr seqs \<and>
      (\<forall>n. map_of seqs n =
         (case read_seq (cmb_StorageClient ex_cmb) ''cfg'' n of
            Inr buf \<Rightarrow>
              if n \<in> rc_Name ` set (cmp_Runtimes \<lparr>cmp_Runtimes = [ex_rc, ?noseq]\<rparr>) then Some buf
              else None
          | Inl _ \<Rightarrow> None))"
    by (intro Seqs_omits_missing_seq [OF sp cm, of ex_bucket_loader ex_world False,
          THEN conjunct1, rule_format])
      (auto simp: st rd rt)
  then have fetched: "\<not> isl (ConfigMapBucket_Seqs ex_world ex_cmb)"
    by auto
  have sp': "splitGCSPath (cmb_URI (ex_cmb\<lparr>cmb_URI := ''gs://other/''\<rparr>)) = Inr (''other'', [])"
    by (simp add: splitGCSPath_def HasPrefix_def SplitN2_def)
  have cm': "configMap ex_world (ex_cmb\<lparr>cmb_URI := ''gs://other/''\<rparr>) =
      Inr \<lparr>cmp_Runtimes = [ex_rc, ?noseq]\<rparr>"
    by (simp add: configMap_def ex_cmb_def)
  have rd': "read_seq ex_client ''other'' n = Inl (ErrCouldNotFindBucket ''other'')" for n
    by (simp add: read_seq_def storageReadAll_def ex_client_def)
  have st': "cmb_StorageClient (ex_cmb\<lparr>cmb_URI := ''gs://other/''\<rparr>) = ex_client"
    "ex_rc \<in> set (cmp_Runtimes \<lparr>cmp_Runtimes = [ex_rc, ?noseq]\<rparr>)"
    by (simp_all add: ex_cmb_def)
  note T' = Seqs_omits_missing_seq [OF sp' cm', of ex_bucket_loader ex_world False,
      THEN conjunct2, THEN conjunct1, rule_format, of ex_rc "ErrCouldNotFindBucket ''other''"]
  have "\<exists>e'. ConfigMapBucket_Seqs ex_world (ex_cmb\<lparr>cmb_URI := ''gs://other/''\<rparr>) = Inl e' \<and>
      e' \<noteq> ErrObjectNotExist \<and>
      (\<exists>r' \<in> set (cmp_Runtimes \<lparr>cmp_Runtimes = [ex_rc, ?noseq]\<rparr>).
         read_seq (cmb_StorageClient (ex_cmb\<lparr>cmb_URI := ''gs://other/''\<rparr>)) ''other'' (rc_Name r') = Inl e')"
    by (intro T') (simp_all add: st' rd')
  then have e: "ConfigMapBucket_Seqs ex_world (ex_cmb\<lparr>cmb_URI := ''gs://other/''\<rparr>) =
      Inl (ErrCouldNotFindBucket ''other'')"
    unfolding st'(1) rd' by auto
  show ?thesis using fetched seqs rd(1) d e by blast
qed

end
